theory Spec2Isabelle
  imports Complex_Main "HOL-Library.Sublist"
begin

section \<open>Python values and library functions used by \<open>server/app.py\<close>\<close>

text \<open>
  A Python \<open>str\<close> is modelled as a \<open>string\<close> whose characters are code points below 256.
  The exceptions are the classes that the code of \<open>get_gpus\<close> and \<open>_add_process_info\<close>
  or the library functions they call can raise; all of them derive from \<open>Exception\<close>.
\<close>

datatype exn =
    CalledProcessError | ValueError | OverflowError | TypeError | IndexError
  | ImportError | UnicodeDecodeError | OSError | NVMLError

subsection \<open>Character classes\<close>

definition isspace :: "char \<Rightarrow> bool" where
  \<comment> \<open>\<open>str.isspace\<close> on one code point; also the class \<open>\s\<close> of \<open>re\<close> on \<open>str\<close> patterns\<close>
  "isspace c = ((of_char c :: nat) \<in> {9, 10, 11, 12, 13, 28, 29, 30, 31, 32, 133, 160})"

definition isdigit :: "char \<Rightarrow> bool" where
  \<comment> \<open>decimal digits; also the class \<open>\d\<close> of \<open>re\<close>\<close>
  "isdigit c = (48 \<le> (of_char c :: nat) \<and> (of_char c :: nat) \<le> 57)"

definition digit_val :: "char \<Rightarrow> nat" where
  "digit_val c = of_char c - 48"

definition is_linebreak :: "char \<Rightarrow> bool" where
  \<comment> \<open>the line boundaries of \<open>str.splitlines\<close> other than \<open>\r\<close>\<close>
  "is_linebreak c = ((of_char c :: nat) \<in> {10, 11, 12, 28, 29, 30, 133})"

definition numeric_space :: "char \<Rightarrow> bool" where
  \<comment> \<open>the white space that \<open>int(str)\<close> and \<open>float(str)\<close> skip at both ends\<close>
  "numeric_space c = ((of_char c :: nat) \<in> {9, 10, 11, 12, 13, 32, 133, 160})"

definition lower_char :: "char \<Rightarrow> char" where
  "lower_char c =
     (let n = (of_char c :: nat)
      in if (65 \<le> n \<and> n \<le> 90) \<or> (192 \<le> n \<and> n \<le> 222 \<and> n \<noteq> 215)
         then char_of (n + 32) else c)"

subsection \<open>Methods of \<open>str\<close>\<close>

definition strip_with :: "(char \<Rightarrow> bool) \<Rightarrow> string \<Rightarrow> string" where
  "strip_with P s = rev (dropWhile P (rev (dropWhile P s)))"

definition str_strip :: "string \<Rightarrow> string" where
  \<comment> \<open>\<open>s.strip()\<close>\<close>
  "str_strip s = strip_with isspace s"

definition str_strip_chars :: "string \<Rightarrow> string \<Rightarrow> string" where
  \<comment> \<open>\<open>s.strip(chars)\<close>\<close>
  "str_strip_chars chars s = strip_with (\<lambda>c. c \<in> set chars) s"

definition str_lower :: "string \<Rightarrow> string" where
  "str_lower s = map lower_char s"

definition startswith :: "string \<Rightarrow> string \<Rightarrow> bool" where
  \<comment> \<open>\<open>s.startswith(p)\<close>\<close>
  "startswith s p = prefix p s"

definition endswith :: "string \<Rightarrow> string \<Rightarrow> bool" where
  \<comment> \<open>\<open>s.endswith(p)\<close>\<close>
  "endswith s p = suffix p s"

fun str_in :: "string \<Rightarrow> string \<Rightarrow> bool" where
  \<comment> \<open>\<open>sub in s\<close>\<close>
  "str_in sub [] = (sub = [])"
| "str_in sub (c # cs) = (prefix sub (c # cs) \<or> str_in sub cs)"

fun splitlines_from :: "string \<Rightarrow> string \<Rightarrow> string list" where
  \<comment> \<open>\<open>s.splitlines()\<close>, with the line read so far as first argument\<close>
  "splitlines_from cur [] = (if cur = [] then [] else [cur])"
| "splitlines_from cur (c # cs) =
     (if c = CHR 0x0D then
        (case cs of
           [] \<Rightarrow> [cur]
         | d # ds \<Rightarrow> if d = CHR 0x0A then cur # splitlines_from [] ds
                    else cur # splitlines_from [] cs)
      else if is_linebreak c then cur # splitlines_from [] cs
      else splitlines_from (cur @ [c]) cs)"

definition splitlines :: "string \<Rightarrow> string list" where
  "splitlines s = splitlines_from [] s"

fun str_split :: "char \<Rightarrow> string \<Rightarrow> string list" where
  \<comment> \<open>\<open>s.split(sep)\<close> for a separator of one character\<close>
  "str_split sep [] = [[]]"
| "str_split sep (c # cs) =
     (if c = sep then [] # str_split sep cs
      else (case str_split sep cs of
              [] \<Rightarrow> [[c]]
            | x # xs \<Rightarrow> (c # x) # xs))"

fun split_ws_from :: "string \<Rightarrow> string \<Rightarrow> string list" where
  \<comment> \<open>\<open>s.split()\<close>, with the word read so far as first argument\<close>
  "split_ws_from cur [] = (if cur = [] then [] else [cur])"
| "split_ws_from cur (c # cs) =
     (if isspace c then (if cur = [] then split_ws_from [] cs else cur # split_ws_from [] cs)
      else split_ws_from (cur @ [c]) cs)"

definition split_ws :: "string \<Rightarrow> string list" where
  "split_ws s = split_ws_from [] s"

fun str_remove :: "string \<Rightarrow> nat \<Rightarrow> string \<Rightarrow> string" where
  \<comment> \<open>\<open>s.replace(old, "")\<close> for a non-empty \<open>old\<close>: the occurrences of \<open>old\<close> are removed from
      left to right; the second argument counts the characters of an occurrence still to drop\<close>
  "str_remove old k [] = []"
| "str_remove old k (c # cs) =
     (if 0 < k then str_remove old (k - 1) cs
      else if prefix old (c # cs) then str_remove old (length old - 1) cs
      else c # str_remove old 0 cs)"

fun string_of_nat :: "nat \<Rightarrow> string" where
  "string_of_nat n =
     (if n < 10 then [char_of (48 + n)]
      else string_of_nat (n div 10) @ [char_of (48 + n mod 10)])"

declare string_of_nat.simps [simp del]

definition str_of_int :: "int \<Rightarrow> string" where
  \<comment> \<open>\<open>str(i)\<close>, as the f-string \<open>f"PID {pid}"\<close> formats it\<close>
  "str_of_int i = (if i < 0 then CHR ''-'' # string_of_nat (nat (- i)) else string_of_nat (nat i))"

subsection \<open>\<open>int(str)\<close>\<close>

text \<open>
  \<open>int(s)\<close> skips white space at both ends, reads an optional sign and then digits, where
  single underscores may stand between digits. Any other string raises \<open>ValueError\<close>, and so
  does a literal of more digits than the interpreter's limit \<open>sys.get_int_max_str_digits()\<close>
  (4300 by default since CPython 3.11; 0 stands for no limit).
\<close>

fun digits_from :: "nat list \<Rightarrow> string \<Rightarrow> nat list option" where
  \<comment> \<open>the rest of a \<open>digitpart\<close>, after the digits given (last digit first)\<close>
  "digits_from acc [] = Some acc"
| "digits_from acc (c # cs) =
     (if isdigit c then digits_from (digit_val c # acc) cs
      else if c = CHR ''_'' then
        (case cs of
           [] \<Rightarrow> None
         | d # ds \<Rightarrow> if isdigit d then digits_from (digit_val d # acc) ds else None)
      else None)"

definition digitpart :: "string \<Rightarrow> nat list option" where
  \<comment> \<open>\<open>digit (["_"] digit)*\<close>, matched against the whole string: its digits, last first\<close>
  "digitpart s =
     (case s of
        [] \<Rightarrow> None
      | c # cs \<Rightarrow> if isdigit c then digits_from [digit_val c] cs else None)"

fun digits_value :: "nat list \<Rightarrow> nat" where
  \<comment> \<open>the number written by decimal digits, last digit first\<close>
  "digits_value [] = 0"
| "digits_value (d # ds) = d + 10 * digits_value ds"

definition split_sign :: "string \<Rightarrow> bool \<times> string" where
  \<comment> \<open>an optional sign: whether it is a minus, and the rest\<close>
  "split_sign s =
     (case s of
        [] \<Rightarrow> (False, [])
      | c # cs \<Rightarrow> if c = CHR ''-'' then (True, cs)
                 else if c = CHR ''+'' then (False, cs) else (False, s))"

definition py_int :: "nat \<Rightarrow> string \<Rightarrow> exn + int" where
  "py_int max_str_digits s =
     (case split_sign (strip_with numeric_space s) of
        (neg, body) \<Rightarrow>
          (case digitpart body of
             None \<Rightarrow> Inl ValueError
           | Some ds \<Rightarrow>
               if 0 < max_str_digits \<and> max_str_digits < length ds then Inl ValueError
               else Inr (if neg then - int (digits_value ds) else int (digits_value ds))))"

subsection \<open>\<open>float(str)\<close> and \<open>int(float)\<close>\<close>

text \<open>
  A \<open>float\<close> is an IEEE 754 binary64 number: infinite, not a number, or finite. A finite
  one is represented by the rational number it denotes (so \<open>-0.0\<close> and \<open>0.0\<close> coincide,
  as they do under \<open>int\<close>).
\<close>

datatype pyfloat = Finite rat | PosInf | NegInf | NaN

fun bitlen :: "nat \<Rightarrow> nat" where
  "bitlen n = (if n = 0 then 0 else Suc (bitlen (n div 2)))"

declare bitlen.simps [simp del]

definition floor_log2 :: "rat \<Rightarrow> int" where
  \<comment> \<open>for \<open>0 < x\<close>, the \<open>e\<close> with \<open>2 ^ e \<le> x < 2 ^ (e + 1)\<close>\<close>
  "floor_log2 x =
     (case quotient_of x of
        (p, q) \<Rightarrow>
          (let e = int (bitlen (nat p)) - int (bitlen (nat q))
           in if power_int 2 e \<le> x then e else e - 1))"

definition round_half_even :: "rat \<Rightarrow> int" where
  "round_half_even x =
     (let f = \<lfloor>x\<rfloor>; d = x - of_int f
      in if d < 1 / 2 then f else if 1 / 2 < d then f + 1 else if even f then f else f + 1)"

definition to_double :: "rat \<Rightarrow> pyfloat" where
  \<comment> \<open>the binary64 number nearest to \<open>x\<close>, ties to even; beyond the largest one, infinity\<close>
  "to_double x =
     (if x = 0 then Finite 0
      else
        (let a = \<bar>x\<bar>;
             e = max (floor_log2 a) (- 1022);
             ulp = power_int 2 (e - 52);
             r = of_int (round_half_even (a / ulp)) * ulp
         in if 2 ^ 1024 \<le> r then (if x < 0 then NegInf else PosInf)
            else Finite (if x < 0 then - r else r)))"

definition split_at :: "(char \<Rightarrow> bool) \<Rightarrow> string \<Rightarrow> string \<times> string option" where
  \<comment> \<open>the text before the first character in \<open>P\<close>, and the text after it when there is one\<close>
  "split_at P s =
     (case dropWhile (\<lambda>c. \<not> P c) s of
        [] \<Rightarrow> (s, None)
      | c # rest \<Rightarrow> (takeWhile (\<lambda>c. \<not> P c) s, Some rest))"

definition float_number :: "string \<Rightarrow> (nat \<times> nat) option" where
  \<comment> \<open>\<open>[digitpart] "." digitpart | digitpart ["."]\<close>: the digits read as one natural number,
      and how many of them stand after the point\<close>
  "float_number s =
     (case split_at (\<lambda>c. c = CHR ''.'') s of
        (ip, None) \<Rightarrow> map_option (\<lambda>ds. (digits_value ds, 0)) (digitpart ip)
      | (ip, Some fp) \<Rightarrow>
          (if fp = [] then map_option (\<lambda>ds. (digits_value ds, 0)) (digitpart ip)
           else
             (case digitpart fp of
                None \<Rightarrow> None
              | Some fs \<Rightarrow>
                  (if ip = [] then Some (digits_value fs, length fs)
                   else
                     (case digitpart ip of
                        None \<Rightarrow> None
                      | Some ds \<Rightarrow> Some (digits_value (fs @ ds), length fs))))))"

definition float_exponent :: "string \<Rightarrow> int option" where
  \<comment> \<open>\<open>[sign] digitpart\<close>, the text after \<open>e\<close> or \<open>E\<close>\<close>
  "float_exponent s =
     (case split_sign s of
        (neg, body) \<Rightarrow>
          map_option (\<lambda>ds. if neg then - int (digits_value ds) else int (digits_value ds))
            (digitpart body))"

definition floatnumber :: "string \<Rightarrow> rat option" where
  \<comment> \<open>\<open>number [exponent]\<close>: the rational number that the decimal literal denotes\<close>
  "floatnumber s =
     (case split_at (\<lambda>c. c = CHR ''e'' \<or> c = CHR ''E'') s of
        (m, ex) \<Rightarrow>
          (case float_number m of
             None \<Rightarrow> None
           | Some (n, k) \<Rightarrow>
               (case (case ex of None \<Rightarrow> Some 0 | Some t \<Rightarrow> float_exponent t) of
                  None \<Rightarrow> None
                | Some e \<Rightarrow> Some (of_nat n * power_int 10 (e - int k)))))"

definition py_float :: "string \<Rightarrow> exn + pyfloat" where
  \<comment> \<open>\<open>float(s)\<close> for a string \<open>s\<close>\<close>
  "py_float s =
     (case split_sign (strip_with numeric_space s) of
        (neg, body) \<Rightarrow>
          (if str_lower body = ''inf'' \<or> str_lower body = ''infinity''
           then Inr (if neg then NegInf else PosInf)
           else if str_lower body = ''nan'' then Inr NaN
           else
             (case floatnumber body of
                None \<Rightarrow> Inl ValueError
              | Some x \<Rightarrow> Inr (to_double (if neg then - x else x)))))"

definition int_of_float :: "pyfloat \<Rightarrow> exn + int" where
  \<comment> \<open>\<open>int(x)\<close> for a float \<open>x\<close>: truncation towards zero\<close>
  "int_of_float x =
     (case x of
        Finite q \<Rightarrow> Inr (if q < 0 then - \<lfloor>- q\<rfloor> else \<lfloor>q\<rfloor>)
      | PosInf \<Rightarrow> Inl OverflowError
      | NegInf \<Rightarrow> Inl OverflowError
      | NaN \<Rightarrow> Inl ValueError)"

definition int_float :: "string \<Rightarrow> exn + int" where
  \<comment> \<open>\<open>int(float(s))\<close>\<close>
  "int_float s = (case py_float s of Inl e \<Rightarrow> Inl e | Inr x \<Rightarrow> int_of_float x)"

subsection \<open>The two regular-expression shapes of the structured-report strategy\<close>

text \<open>
  \<open>re.findall(r"<t>(.*?)</t>", s, flags=re.S)\<close> tries every start position from left to right.
  Where the opening tag stands, the lazy group ends at the first closing tag after it; the next
  match is looked for behind that closing tag. The third argument counts the characters of the
  last match that are still to be passed over.
\<close>

fun find_sub :: "string \<Rightarrow> string \<Rightarrow> nat option" where
  \<comment> \<open>where \<open>sub\<close> first occurs in a string\<close>
  "find_sub sub [] = (if sub = [] then Some 0 else None)"
| "find_sub sub (c # cs) =
     (if prefix sub (c # cs) then Some 0 else map_option Suc (find_sub sub cs))"

fun findall_between :: "string \<Rightarrow> string \<Rightarrow> nat \<Rightarrow> string \<Rightarrow> string list" where
  "findall_between op cl skip [] = []"
| "findall_between op cl skip (c # cs) =
     (if 0 < skip then findall_between op cl (skip - 1) cs
      else if prefix op (c # cs) then
        (case find_sub cl (drop (length op) (c # cs)) of
           None \<Rightarrow> findall_between op cl 0 cs
         | Some n \<Rightarrow>
             take n (drop (length op) (c # cs))
               # findall_between op cl (length op + n + length cl - 1) cs)
      else findall_between op cl 0 cs)"

fun re_search :: "(string \<Rightarrow> 'a option) \<Rightarrow> string \<Rightarrow> 'a option" where
  \<comment> \<open>\<open>re.search\<close>: the match at the leftmost position where the pattern matches\<close>
  "re_search m [] = m []"
| "re_search m (c # cs) = (case m (c # cs) of Some r \<Rightarrow> Some r | None \<Rightarrow> re_search m cs)"

definition match_text :: "string \<Rightarrow> string \<Rightarrow> string \<Rightarrow> string option" where
  \<comment> \<open>group 1 of \<open><t>\s*([^<]+)\s*</t>\<close> matched at the start of \<open>s\<close>. The text \<open>body\<close> up to
      the next \<open><\<close> must be non-empty and be followed by the closing tag; the group is that
      text without its leading white space, or its last character when it is all white space.\<close>
  "match_text op cl s =
     (if prefix op s then
        (let rest = drop (length op) s;
             body = takeWhile (\<lambda>c. c \<noteq> CHR ''<'') rest;
             after = dropWhile (\<lambda>c. c \<noteq> CHR ''<'') rest
         in if body \<noteq> [] \<and> prefix cl after
            then Some (if dropWhile isspace body = [] then [last body]
                       else dropWhile isspace body)
            else None)
      else None)"

definition match_number :: "string \<Rightarrow> string \<Rightarrow> string \<Rightarrow> string \<Rightarrow> string option" where
  \<comment> \<open>group 1 of \<open><t>\s*(\d+)\s*UNIT\s*</t>\<close> matched at the start of \<open>s\<close>
      (with an empty \<open>unit\<close>: of \<open><t>\s*(\d+)\s*</t>\<close>)\<close>
  "match_number op unit cl s =
     (if prefix op s then
        (let rest = dropWhile isspace (drop (length op) s);
             ds = takeWhile isdigit rest;
             after = dropWhile isspace (dropWhile isdigit rest)
         in if ds \<noteq> [] \<and> prefix unit after
               \<and> prefix cl (dropWhile isspace (drop (length unit) after))
            then Some ds else None)
      else None)"

section \<open>Data model\<close>

text \<open>
  The dictionaries that \<open>get_gpus\<close> builds. It makes a new dictionary for every row, so a
  device list is a list of values: no two of its entries are one object, and every device
  has its \<open>processes\<close> list (the \<open>setdefault\<close> of the later methods finds it).
  The keys \<open>id\<close>, \<open>memory\<close> and \<open>power\<close> of a device are the fields \<open>id_gpu\<close>,
  \<open>mem_used\<close>/\<open>mem_total\<close> and \<open>p_draw\<close>/\<open>p_limit\<close>; the keys \<open>name\<close> and \<open>memory\<close>
  of a process entry are the fields \<open>pname\<close> and \<open>pmem\<close>.
\<close>

record process =
  pid :: int
  pname :: string
  pmem :: int

record device =
  id_gpu :: int
  uuid :: "string option"
  name :: string
  driverVersion :: "string option"
  temperature :: int
  utilization :: int
  mem_used :: int
  mem_total :: int
  p_draw :: int
  p_limit :: int
  fan :: "int option"
  processes :: "process list"

text \<open>
  What the monitoring library reports for one process: its pid and the attribute
  \<open>usedGpuMemory\<close>, which may be missing, \<open>None\<close> (the library's "not available") or a
  number of bytes.
\<close>

datatype gpu_memory = NoAttribute | NotAvailable | Bytes int

record nvml_proc =
  proc_pid :: int
  usedGpuMemory :: gpu_memory

section \<open>The outside world\<close>

text \<open>
  Every call that leaves the program is logged. What a call answers may depend on all calls
  made before it, so the environment is a family of functions of the log so far; \<open>Inl\<close> is
  the exception the call raises.
\<close>

datatype call =
    Import_pynvml
  | NvmlInit
  | NvmlDeviceGetHandleByIndex nat
  | NvmlDeviceGetComputeRunningProcesses nat
  | NvmlDeviceGetGraphicsRunningProcesses nat
  | NvmlSystemGetProcessName int
  | NvmlShutdown
  | Check_output string

record env =
  max_str_digits :: nat
  check_output :: "call list \<Rightarrow> string \<Rightarrow> exn + string"
  import_pynvml :: "call list \<Rightarrow> exn + unit"
  nvmlInit :: "call list \<Rightarrow> exn + unit"
  nvmlDeviceGetHandleByIndex :: "call list \<Rightarrow> nat \<Rightarrow> exn + nat"
  nvmlDeviceGetComputeRunningProcesses :: "call list \<Rightarrow> nat \<Rightarrow> exn + nvml_proc list"
  nvmlDeviceGetGraphicsRunningProcesses :: "call list \<Rightarrow> nat \<Rightarrow> exn + nvml_proc list"
  nvmlSystemGetProcessName :: "call list \<Rightarrow> int \<Rightarrow> exn + string"
  nvmlShutdown :: "call list \<Rightarrow> exn + unit"
  gethostname :: string
  utcnow :: string

text \<open>
  The state of one pass of \<open>_add_process_info\<close>: the device list it mutates in place, its
  local counter \<open>appended\<close>, and the log. A statement either returns or raises; the state it
  leaves is there in both cases.
\<close>

record rstate =
  gpus :: "device list"
  appended :: nat
  calls :: "call list"

datatype outcome = Returns rstate | Raises exn rstate

definition final_state :: "outcome \<Rightarrow> rstate" where
  "final_state r = (case r of Returns s \<Rightarrow> s | Raises e s \<Rightarrow> s)"

definition and_then :: "outcome \<Rightarrow> (rstate \<Rightarrow> outcome) \<Rightarrow> outcome" where
  \<comment> \<open>sequential composition: an exception skips what follows\<close>
  "and_then r f = (case r of Returns s \<Rightarrow> f s | Raises e s \<Rightarrow> Raises e s)"

definition except_Exception :: "outcome \<Rightarrow> outcome" where
  \<comment> \<open>\<open>try: ... except Exception: pass\<close> (or \<open>continue\<close>, at the end of a loop body)\<close>
  "except_Exception r = (case r of Returns s \<Rightarrow> Returns s | Raises e s \<Rightarrow> Returns s)"

definition except_CalledProcessError :: "outcome \<Rightarrow> outcome" where
  \<comment> \<open>\<open>try: ... except subprocess.CalledProcessError: pass\<close>\<close>
  "except_CalledProcessError r =
     (case r of
        Returns s \<Rightarrow> Returns s
      | Raises e s \<Rightarrow> if e = CalledProcessError then Returns s else Raises e s)"

fun for_each :: "('a \<Rightarrow> rstate \<Rightarrow> outcome) \<Rightarrow> 'a list \<Rightarrow> rstate \<Rightarrow> outcome" where
  \<comment> \<open>a \<open>for\<close> loop; \<open>continue\<close> is a body that returns\<close>
  "for_each body [] s = Returns s"
| "for_each body (x # xs) s =
     (case body x s of
        Returns s' \<Rightarrow> for_each body xs s'
      | Raises e s' \<Rightarrow> Raises e s')"

definition call_out :: "call \<Rightarrow> (call list \<Rightarrow> exn + 'a) \<Rightarrow> rstate \<Rightarrow> (exn + 'a) \<times> rstate" where
  \<comment> \<open>one call to the outside: its answer, and the state with the call logged\<close>
  "call_out c f s = (f (calls s), s\<lparr>calls := calls s @ [c]\<rparr>)"

definition run_cmd :: "env \<Rightarrow> string \<Rightarrow> rstate \<Rightarrow> (exn + string) \<times> rstate" where
  \<comment> \<open>\<open>subprocess.check_output(cmd, shell=True, text=True).strip()\<close>\<close>
  "run_cmd env cmd s =
     (case call_out (Check_output cmd) (\<lambda>hist. check_output env hist cmd) s of
        (Inl e, s') \<Rightarrow> (Inl e, s')
      | (Inr out, s') \<Rightarrow> (Inr (str_strip out), s'))"

definition attach :: "(device \<Rightarrow> bool) \<Rightarrow> process \<Rightarrow> device list \<Rightarrow> device list" where
  \<comment> \<open>\<open>for g in gpus: if <g selected>: g["processes"].append(p)\<close>\<close>
  "attach sel p gs = map (\<lambda>g. if sel g then g\<lparr>processes := processes g @ [p]\<rparr> else g) gs"

definition attach_counted :: "(device \<Rightarrow> bool) \<Rightarrow> process \<Rightarrow> rstate \<Rightarrow> rstate" where
  \<comment> \<open>the same loop with \<open>appended += 1\<close> after each append\<close>
  "attach_counted sel p s =
     s\<lparr>gpus := attach sel p (gpus s), appended := appended s + length (filter sel (gpus s))\<rparr>"

definition then_exn :: "exn + 'a \<Rightarrow> ('a \<Rightarrow> exn + 'b) \<Rightarrow> exn + 'b" where
  \<comment> \<open>evaluate one expression after another: the first exception is the result\<close>
  "then_exn r f = (case r of Inl e \<Rightarrow> Inl e | Inr v \<Rightarrow> f v)"

section \<open>\<open>_add_process_info\<close>\<close>

subsection \<open>Method 1: the monitoring library\<close>

definition memory_mb :: "nvml_proc \<Rightarrow> exn + int" where
  \<comment> \<open>\<open>proc.usedGpuMemory // (1024 * 1024) if hasattr(proc, 'usedGpuMemory') else 0\<close>;
      \<open>None // int\<close> raises \<open>TypeError\<close>\<close>
  "memory_mb proc =
     (case usedGpuMemory proc of
        NoAttribute \<Rightarrow> Inr 0
      | NotAvailable \<Rightarrow> Inl TypeError
      | Bytes b \<Rightarrow> Inr (b div (1024 * 1024)))"

definition append_at :: "nat \<Rightarrow> process \<Rightarrow> device list \<Rightarrow> device list" where
  \<comment> \<open>\<open>gpu["processes"].append(p)\<close> for the \<open>gpu\<close> at position \<open>i\<close> of \<open>enumerate(gpus)\<close>\<close>
  "append_at i p gs = gs[i := (gs ! i)\<lparr>processes := processes (gs ! i) @ [p]\<rparr>]"

definition nvml_process :: "env \<Rightarrow> nat \<Rightarrow> nvml_proc \<Rightarrow> rstate \<Rightarrow> outcome" where
  \<comment> \<open>the body of \<open>for proc in all_procs\<close>\<close>
  "nvml_process env i proc s =
     except_Exception
       (case memory_mb proc of
          Inl e \<Rightarrow> Raises e s
        | Inr mb \<Rightarrow>
            (case call_out (NvmlSystemGetProcessName (proc_pid proc))
                    (\<lambda>hist. nvmlSystemGetProcessName env hist (proc_pid proc)) s of
               (r, s') \<Rightarrow>
                 Returns
                   (s'\<lparr>gpus :=
                         append_at i
                           \<lparr>pid = proc_pid proc,
                            pname = (case r of
                                       Inl e \<Rightarrow> ''PID '' @ str_of_int (proc_pid proc)
                                     | Inr n \<Rightarrow> n),
                            pmem = mb\<rparr>
                           (gpus s'),
                       appended := appended s' + 1\<rparr>)))"

definition nvml_device :: "env \<Rightarrow> nat \<Rightarrow> rstate \<Rightarrow> outcome" where
  \<comment> \<open>the body of \<open>for i, gpu in enumerate(gpus)\<close>\<close>
  "nvml_device env i s =
     except_Exception
       (case call_out (NvmlDeviceGetHandleByIndex i)
               (\<lambda>hist. nvmlDeviceGetHandleByIndex env hist i) s of
          (Inl e, s1) \<Rightarrow> Raises e s1
        | (Inr handle, s1) \<Rightarrow>
            except_Exception
              (case call_out (NvmlDeviceGetComputeRunningProcesses handle)
                      (\<lambda>hist. nvmlDeviceGetComputeRunningProcesses env hist handle) s1 of
                 (Inl e, s2) \<Rightarrow> Raises e s2
               | (Inr compute_procs, s2) \<Rightarrow>
                   (case call_out (NvmlDeviceGetGraphicsRunningProcesses handle)
                           (\<lambda>hist. nvmlDeviceGetGraphicsRunningProcesses env hist handle) s2 of
                      (Inl e, s3) \<Rightarrow> Raises e s3
                    | (Inr graphics_procs, s3) \<Rightarrow>
                        for_each (nvml_process env i) (compute_procs @ graphics_procs) s3)))"

definition method1 :: "env \<Rightarrow> rstate \<Rightarrow> outcome" where
  "method1 env s =
     except_Exception
       (case call_out Import_pynvml (import_pynvml env) s of
          (Inl e, s1) \<Rightarrow> Raises e s1
        | (Inr u, s1) \<Rightarrow>
            (case call_out NvmlInit (nvmlInit env) s1 of
               (Inl e, s2) \<Rightarrow> Raises e s2
             | (Inr u, s2) \<Rightarrow>
                 and_then (for_each (nvml_device env) [0..<length (gpus s2)] s2)
                   (\<lambda>s3. case call_out NvmlShutdown (nvmlShutdown env) s3 of
                           (Inl e, s4) \<Rightarrow> Raises e s4
                         | (Inr u, s4) \<Rightarrow> Returns s4)))"

subsection \<open>Method 2: the XML report\<close>

definition xml_process :: "nat \<Rightarrow> string \<Rightarrow> exn + process option" where
  \<comment> \<open>one \<open><process_info>\<close> block: \<open>Inr None\<close> is the \<open>continue\<close> of a block without pid\<close>
  "xml_process maxd proc =
     (case re_search (match_number ''<pid>'' [] ''</pid>'') proc of
        None \<Rightarrow> Inr None
      | Some pid_m \<Rightarrow>
          then_exn (py_int maxd pid_m) (\<lambda>pid.
          then_exn
            (case re_search (match_number ''<used_memory>'' ''MiB'' ''</used_memory>'') proc of
               None \<Rightarrow> Inr 0
             | Some mem_m \<Rightarrow> py_int maxd mem_m) (\<lambda>pmem.
          Inr (Some
            \<lparr>pid = pid,
             pname = (case re_search (match_text ''<process_name>'' ''</process_name>'') proc of
                        None \<Rightarrow> ''unknown''
                      | Some name_m \<Rightarrow> str_strip name_m),
             pmem = pmem\<rparr>))))"

definition xml_process_info :: "env \<Rightarrow> string \<Rightarrow> string \<Rightarrow> rstate \<Rightarrow> outcome" where
  \<comment> \<open>the body of \<open>for proc in re.findall(...)\<close>, with the join on the uuid\<close>
  "xml_process_info env gpu_uuid proc s =
     (case xml_process (max_str_digits env) proc of
        Inl e \<Rightarrow> Raises e s
      | Inr None \<Rightarrow> Returns s
      | Inr (Some p) \<Rightarrow> Returns (attach_counted (\<lambda>g. uuid g = Some gpu_uuid) p s))"

definition xml_gpu_block :: "env \<Rightarrow> string \<Rightarrow> rstate \<Rightarrow> outcome" where
  \<comment> \<open>the body of \<open>for gpu_block in re.findall(...)\<close>\<close>
  "xml_gpu_block env gpu_block s =
     (case re_search (match_text ''<uuid>'' ''</uuid>'') gpu_block of
        None \<Rightarrow> Returns s
      | Some uuid_match \<Rightarrow>
          for_each (xml_process_info env (str_strip uuid_match))
            (findall_between ''<process_info>'' ''</process_info>'' 0 gpu_block) s)"

definition method2 :: "env \<Rightarrow> rstate \<Rightarrow> outcome" where
  "method2 env s =
     (if appended s = 0 then
        except_Exception
          (case run_cmd env ''nvidia-smi -x -q'' s of
             (Inl e, s1) \<Rightarrow> Raises e s1
           | (Inr xml, s1) \<Rightarrow>
               for_each (xml_gpu_block env) (findall_between ''<gpu>'' ''</gpu>'' 0 xml) s1)
      else Returns s)"

subsection \<open>Method 3: the compute-apps query\<close>

definition compute_apps_cmd :: "string \<Rightarrow> string" where
  "compute_apps_cmd pq =
     ''nvidia-smi --query-compute-apps='' @ pq @ '' --format=csv,noheader,nounits''"

definition queries :: "string list" where
  "queries = [''gpu_uuid,pid,process_name,used_memory'',
              ''gpu_uuid,pid,process_name,used_gpu_memory'']"

fun compute_apps_queries ::
  "env \<Rightarrow> string list \<Rightarrow> string \<Rightarrow> rstate \<Rightarrow> (exn + string) \<times> rstate" where
  \<comment> \<open>\<open>for pq in queries\<close>, with the current \<open>pout\<close>: a usable output ends the loop
      (\<open>break\<close>), \<open>CalledProcessError\<close> goes on to the next query, another exception leaves\<close>
  "compute_apps_queries env [] pout s = (Inr pout, s)"
| "compute_apps_queries env (pq # rest) pout s =
     (case run_cmd env (compute_apps_cmd pq) s of
        (Inl e, s1) \<Rightarrow>
          if e = CalledProcessError then compute_apps_queries env rest pout s1
          else (Inl e, s1)
      | (Inr out, s1) \<Rightarrow>
          if out \<noteq> [] \<and> \<not> str_in ''No running'' out then (Inr out, s1)
          else compute_apps_queries env rest out s1)"

definition compute_apps_memory :: "string \<Rightarrow> exn + int" where
  \<comment> \<open>\<open>int(float(x)) if x not in ("N/A", "[N/A]") else 0\<close> under \<open>except ValueError: pmem = 0\<close>\<close>
  "compute_apps_memory x =
     (if x = ''N/A'' \<or> x = ''[N/A]'' then Inr 0
      else (case int_float x of
              Inl e \<Rightarrow> if e = ValueError then Inr 0 else Inl e
            | Inr v \<Rightarrow> Inr v))"

definition compute_apps_row :: "env \<Rightarrow> string list \<Rightarrow> rstate \<Rightarrow> outcome" where
  \<comment> \<open>a row of at least four stripped fields: uuid, pid, process name, memory\<close>
  "compute_apps_row env parts s =
     (case py_int (max_str_digits env) (parts ! 1) of
        Inl e \<Rightarrow> if e = ValueError then Returns s else Raises e s
      | Inr pid' \<Rightarrow>
          (case compute_apps_memory (parts ! 3) of
             Inl e \<Rightarrow> Raises e s
           | Inr pmem' \<Rightarrow>
               Returns
                 (attach_counted (\<lambda>g. uuid g = Some (parts ! 0))
                    \<lparr>pid = pid', pname = parts ! 2, pmem = pmem'\<rparr> s)))"

definition compute_apps_line :: "env \<Rightarrow> string \<Rightarrow> rstate \<Rightarrow> outcome" where
  \<comment> \<open>the body of \<open>for line in pout.splitlines()\<close>\<close>
  "compute_apps_line env line s =
     (if line = [] \<or> str_in ''No running'' line \<or> str_in ''Not Supported'' line then Returns s
      else
        (let parts = map str_strip (str_split CHR '','' line)
         in if length parts < 4 then Returns s else compute_apps_row env parts s))"

definition method3 :: "env \<Rightarrow> rstate \<Rightarrow> outcome" where
  "method3 env s =
     (if appended s = 0 then
        (case compute_apps_queries env queries [] s of
           (Inl e, s1) \<Rightarrow> Raises e s1
         | (Inr pout, s1) \<Rightarrow>
             if pout \<noteq> [] then for_each (compute_apps_line env) (splitlines pout) s1
             else Returns s1)
      else Returns s)"

subsection \<open>Method 4: the plain-text table\<close>

definition first_word :: "string \<Rightarrow> exn + string" where
  \<comment> \<open>\<open>x.split()[0]\<close>\<close>
  "first_word x = (case split_ws x of [] \<Rightarrow> Inl IndexError | w # ws \<Rightarrow> Inr w)"

definition table_row :: "nat \<Rightarrow> string list \<Rightarrow> exn + int \<times> process" where
  \<comment> \<open>the \<open>try\<close> block of a data row with at least seven columns:
      GPU, GI, CI, PID, Type, Process name, GPU Memory Usage\<close>
  "table_row maxd cols =
     then_exn (first_word (cols ! 0)) (\<lambda>w0.
     then_exn (py_int maxd w0) (\<lambda>idx.
     then_exn (first_word (cols ! 3)) (\<lambda>w3.
     then_exn (py_int maxd w3) (\<lambda>pid.
     then_exn (first_word (cols ! 6)) (\<lambda>mem_part.
     then_exn
       (if endswith mem_part ''MiB'' then py_int maxd (str_remove ''MiB'' 0 mem_part)
        else py_int maxd mem_part) (\<lambda>pmem.
     Inr (idx, \<lparr>pid = pid, pname = cols ! 5, pmem = pmem\<rparr>)))))))"

fun table_lines :: "env \<Rightarrow> bool \<Rightarrow> string list \<Rightarrow> rstate \<Rightarrow> outcome" where
  \<comment> \<open>\<open>for line in txt.splitlines()\<close>, with the current \<open>in_block\<close>\<close>
  "table_lines env in_block [] s = Returns s"
| "table_lines env in_block (line # rest) s =
     (if str_in ''Processes:'' line then table_lines env True rest s
      else if in_block \<and> startswith (str_strip line) ''+'' \<and> \<not> str_in ''Processes'' line
      then table_lines env in_block rest s
      else if in_block \<and> startswith (str_strip line) ''|'' then
        (let cols = map str_strip
                      (str_split CHR ''|'' (str_strip_chars [CHR ''|'', CHR 0x0A] line))
         in if length cols < 7 then table_lines env in_block rest s
            else
              (case table_row (max_str_digits env) cols of
                 Inl e \<Rightarrow> table_lines env in_block rest s
               | Inr (idx, p) \<Rightarrow>
                   table_lines env in_block rest
                     (attach_counted (\<lambda>g. id_gpu g = idx) p s)))
      else table_lines env in_block rest s)"

definition method4 :: "env \<Rightarrow> rstate \<Rightarrow> outcome" where
  "method4 env s =
     (if appended s = 0 then
        except_Exception
          (case run_cmd env ''nvidia-smi'' s of
             (Inl e, s1) \<Rightarrow> Raises e s1
           | (Inr txt, s1) \<Rightarrow> table_lines env False (splitlines txt) s1)
      else Returns s)"

subsection \<open>Method 5: the process monitor\<close>

definition pmon_memory :: "string \<Rightarrow> exn + int" where
  \<comment> \<open>\<open>int(float(x)) if x not in ("-", "N/A", "[N/A]") else 0\<close> under
      \<open>except ValueError: pmem = 0\<close>\<close>
  "pmon_memory x =
     (if x = ''-'' \<or> x = ''N/A'' \<or> x = ''[N/A]'' then Inr 0
      else (case int_float x of
              Inl e \<Rightarrow> if e = ValueError then Inr 0 else Inl e
            | Inr v \<Rightarrow> Inr v))"

definition pmon_row :: "env \<Rightarrow> string list \<Rightarrow> rstate \<Rightarrow> outcome" where
  \<comment> \<open>a row of at least nine words; the ninth is the command, the eighth the memory.
      This loop does not count its appends.\<close>
  "pmon_row env parts s =
     (case then_exn (py_int (max_str_digits env) (parts ! 0)) (\<lambda>idx.
           then_exn (py_int (max_str_digits env) (parts ! 1)) (\<lambda>pid.
           Inr (idx, pid))) of
        Inl e \<Rightarrow> if e = ValueError then Returns s else Raises e s
      | Inr (idx, pid') \<Rightarrow>
          (case pmon_memory (parts ! 7) of
             Inl e \<Rightarrow> Raises e s
           | Inr pmem' \<Rightarrow>
               Returns
                 (s\<lparr>gpus :=
                      attach (\<lambda>g. id_gpu g = idx)
                        \<lparr>pid = pid', pname = parts ! 8, pmem = pmem'\<rparr> (gpus s)\<rparr>)))"

definition pmon_line :: "env \<Rightarrow> string \<Rightarrow> rstate \<Rightarrow> outcome" where
  \<comment> \<open>the body of \<open>for line in pmon.splitlines()\<close>\<close>
  "pmon_line env line0 s =
     (let line = str_strip line0
      in if line = [] \<or> startswith line ''#'' \<or> startswith (str_lower line) ''gpu''
         then Returns s
         else
           (let parts = split_ws line
            in if length parts < 9 then Returns s else pmon_row env parts s))"

definition method5 :: "env \<Rightarrow> rstate \<Rightarrow> outcome" where
  "method5 env s =
     (if appended s = 0 then
        except_CalledProcessError
          (case run_cmd env ''nvidia-smi pmon -c 1 -s mu'' s of
             (Inl e, s1) \<Rightarrow> Raises e s1
           | (Inr pmon, s1) \<Rightarrow> for_each (pmon_line env) (splitlines pmon) s1)
      else Returns s)"

subsection \<open>The whole function\<close>

definition methods :: "env \<Rightarrow> (rstate \<Rightarrow> outcome) list" where
  "methods env = [method1 env, method2 env, method3 env, method4 env, method5 env]"

fun run_all :: "(rstate \<Rightarrow> outcome) list \<Rightarrow> rstate \<Rightarrow> outcome" where
  \<comment> \<open>statements one after another\<close>
  "run_all [] s = Returns s"
| "run_all (m # ms) s = and_then (m s) (run_all ms)"

definition run_methods :: "env \<Rightarrow> nat \<Rightarrow> call list \<Rightarrow> device list \<Rightarrow> outcome" where
  \<comment> \<open>the first \<open>k\<close> methods, run on a device list after the calls in \<open>hist\<close>\<close>
  "run_methods env k hist gs =
     run_all (take k (methods env)) \<lparr>gpus = gs, appended = 0, calls = hist\<rparr>"

text \<open>
  \<open>_add_process_info\<close> ends with \<open>return gpus\<close>. A Python function may return any value, so
  the result is given its type here: a device list or an integer.
\<close>

datatype pyval = DeviceList "device list" | IntVal int

definition add_process_info :: "env \<Rightarrow> call list \<Rightarrow> device list \<Rightarrow> exn + pyval" where
  "add_process_info env hist gs =
     (case run_methods env 5 hist gs of
        Returns s \<Rightarrow> Inr (DeviceList (gpus s))
      | Raises e s \<Rightarrow> Inl e)"

section \<open>\<open>get_gpus\<close> and the endpoint \<open>/nvidia-smi.json\<close>\<close>

definition int_float_or_0 :: "string \<Rightarrow> exn + int" where
  \<comment> \<open>\<open>int(float(x or 0))\<close>\<close>
  "int_float_or_0 x = (if x = [] then Inr 0 else int_float x)"

definition or_None :: "string \<Rightarrow> string option" where
  \<comment> \<open>\<open>x or None\<close>\<close>
  "or_None x = (if x = [] then None else Some x)"

definition fan_speed :: "string \<Rightarrow> exn + int option" where
  \<comment> \<open>\<open>int(float(fan_raw)) if fan_raw and fan_raw not in ("N/A", "[N/A]") else None\<close>\<close>
  "fan_speed fan_raw =
     (if fan_raw \<noteq> [] \<and> fan_raw \<noteq> ''N/A'' \<and> fan_raw \<noteq> ''[N/A]''
      then then_exn (int_float fan_raw) (\<lambda>v. Inr (Some v))
      else Inr None)"

definition gpu_of_line :: "nat \<Rightarrow> string \<Rightarrow> exn + device option" where
  \<comment> \<open>the body of \<open>for line in out.splitlines()\<close>: \<open>Inr None\<close> is the \<open>continue\<close> of a short row\<close>
  "gpu_of_line maxd line =
     (let parts = map str_strip (str_split CHR '','' line)
      in if length parts < 10 then Inr None
         else
           then_exn (py_int maxd (parts ! 0)) (\<lambda>idx.
           then_exn (int_float_or_0 (parts ! 4)) (\<lambda>temp.
           then_exn (int_float_or_0 (parts ! 5)) (\<lambda>util.
           then_exn (int_float_or_0 (parts ! 6)) (\<lambda>mem_used'.
           then_exn (int_float_or_0 (parts ! 7)) (\<lambda>mem_total'.
           then_exn (int_float_or_0 (parts ! 8)) (\<lambda>p_draw'.
           then_exn (int_float_or_0 (parts ! 9)) (\<lambda>p_limit'.
           then_exn (fan_speed (if 10 < length parts then parts ! 10 else [])) (\<lambda>fan'.
           Inr (Some
             \<lparr>id_gpu = idx,
              uuid = or_None (parts ! 1),
              name = parts ! 2,
              driverVersion = or_None (parts ! 3),
              temperature = temp,
              utilization = util,
              mem_used = mem_used',
              mem_total = mem_total',
              p_draw = p_draw',
              p_limit = p_limit',
              fan = fan',
              processes = []\<rparr>))))))))))"

fun gpus_of_lines :: "nat \<Rightarrow> string list \<Rightarrow> exn + device list" where
  \<comment> \<open>the loop that fills \<open>gpus\<close>\<close>
  "gpus_of_lines maxd [] = Inr []"
| "gpus_of_lines maxd (line # rest) =
     then_exn (gpu_of_line maxd line) (\<lambda>g.
     then_exn (gpus_of_lines maxd rest) (\<lambda>gs.
     Inr (case g of None \<Rightarrow> gs | Some d \<Rightarrow> d # gs)))"

definition query_gpu_cmd :: string where
  "query_gpu_cmd =
     ''nvidia-smi --format=csv,noheader,nounits --query-gpu=''
       @ ''index,uuid,name,driver_version,temperature.gpu,utilization.gpu,''
       @ ''memory.used,memory.total,power.draw,power.limit,fan.speed''"

definition get_gpus :: "env \<Rightarrow> exn + device list" where
  \<comment> \<open>the result of \<open>_add_process_info\<close> is dropped: \<open>gpus\<close> is returned as the call left it\<close>
  "get_gpus env =
     (case run_cmd env query_gpu_cmd \<lparr>gpus = [], appended = 0, calls = []\<rparr> of
        (Inl e, s) \<Rightarrow> Inl e
      | (Inr out, s) \<Rightarrow>
          then_exn (gpus_of_lines (max_str_digits env) (splitlines out)) (\<lambda>gs.
            (case run_methods env 5 (calls s) gs of
               Returns s' \<Rightarrow> Inr (gpus s')
             | Raises e s' \<Rightarrow> Inl e)))"

record snapshot =
  host :: string
  timestamp :: string
  snapshot_gpus :: "device list"

definition nvidia :: "env \<Rightarrow> exn + snapshot" where
  \<comment> \<open>the view function: an exception it lets through is the framework's error response\<close>
  "nvidia env =
     then_exn (get_gpus env) (\<lambda>gs.
       Inr \<lparr>host = gethostname env, timestamp = utcnow env @ ''Z'', snapshot_gpus = gs\<rparr>)"

section \<open>Vocabulary of the properties\<close>

text \<open>
  The number of process entries in a device list; the relation between a device before and
  after a pass that may only have appended process entries to it; and the method that a
  logged call belongs to (0 for a call of no method).
\<close>

definition total_procs :: "device list \<Rightarrow> nat" where
  "total_procs gs = sum_list (map (\<lambda>g. length (processes g)) gs)"

definition append_only :: "device \<Rightarrow> device \<Rightarrow> bool" where
  "append_only g g' = (g' = g\<lparr>processes := processes g'\<rparr> \<and> prefix (processes g) (processes g'))"

fun method_of :: "call \<Rightarrow> nat" where
  "method_of (Check_output cmd) =
     (if cmd = ''nvidia-smi -x -q'' then 2
      else if cmd \<in> set (map compute_apps_cmd queries) then 3
      else if cmd = ''nvidia-smi'' then 4
      else if cmd = ''nvidia-smi pmon -c 1 -s mu'' then 5
      else 0)"
| "method_of c = 1"

text \<open>
  The process entries that an XML report holds, each with the uuid of the \<open><gpu>\<close> block
  around it, in the order of the report; and a device list after the entries of such a list
  have been attached by uuid.
\<close>

definition block_records :: "nat \<Rightarrow> string \<Rightarrow> string list \<Rightarrow> (string \<times> process) list" where
  "block_records maxd u procs =
     List.map_filter
       (\<lambda>proc. case xml_process maxd proc of Inr (Some p) \<Rightarrow> Some (u, p) | _ \<Rightarrow> None) procs"

definition gpu_block_records :: "nat \<Rightarrow> string \<Rightarrow> (string \<times> process) list" where
  "gpu_block_records maxd gpu_block =
     (case re_search (match_text ''<uuid>'' ''</uuid>'') gpu_block of
        None \<Rightarrow> []
      | Some uuid_match \<Rightarrow>
          block_records maxd (str_strip uuid_match)
            (findall_between ''<process_info>'' ''</process_info>'' 0 gpu_block))"

definition xml_records :: "nat \<Rightarrow> string \<Rightarrow> (string \<times> process) list" where
  "xml_records maxd xml =
     concat (map (gpu_block_records maxd) (findall_between ''<gpu>'' ''</gpu>'' 0 xml))"

definition joined :: "(string \<times> process) list \<Rightarrow> device list \<Rightarrow> device list" where
  "joined rs gs =
     map (\<lambda>g. g\<lparr>processes :=
                 processes g @ map snd (filter (\<lambda>r. uuid g = Some (fst r)) rs)\<rparr>) gs"

text \<open>
  The driver's "not applicable" in a text field, and the entries of the monitoring library
  that method 1 turns into a process entry.
\<close>

definition sentinel :: "string \<Rightarrow> bool" where
  \<comment> \<open>the driver's "not applicable"\<close>
  "sentinel x = (x = ''N/A'' \<or> x = ''[N/A]'')"

definition reported :: "nvml_proc \<Rightarrow> bool" where
  \<comment> \<open>the library's entries that method 1 turns into a process entry\<close>
  "reported q = (usedGpuMemory q \<noteq> NotAvailable)"

text \<open>
  What one method may do to the state: append processes to the devices, log calls of its
  own, and (the flag) count every append in \<open>appended\<close> or leave the counter alone.
\<close>

definition grows :: "nat \<Rightarrow> bool \<Rightarrow> rstate \<Rightarrow> rstate \<Rightarrow> bool" where
  "grows k c s s' \<longleftrightarrow>
     list_all2 append_only (gpus s) (gpus s')
     \<and> (\<exists>cs. calls s' = calls s @ cs \<and> list_all (\<lambda>x. method_of x = k) cs)
     \<and> (if c then appended s' + total_procs (gpus s) = appended s + total_procs (gpus s')
         else appended s' = appended s)"

section \<open>Example inputs\<close>

definition no_tools :: env where
  \<comment> \<open>a host without the monitoring library and without the driver tool\<close>
  "no_tools =
     \<lparr>max_str_digits = 4300,
      check_output = (\<lambda>hist cmd. Inl CalledProcessError),
      import_pynvml = (\<lambda>hist. Inl ImportError),
      nvmlInit = (\<lambda>hist. Inl NVMLError),
      nvmlDeviceGetHandleByIndex = (\<lambda>hist i. Inl NVMLError),
      nvmlDeviceGetComputeRunningProcesses = (\<lambda>hist h. Inl NVMLError),
      nvmlDeviceGetGraphicsRunningProcesses = (\<lambda>hist h. Inl NVMLError),
      nvmlSystemGetProcessName = (\<lambda>hist p. Inl NVMLError),
      nvmlShutdown = (\<lambda>hist. Inl NVMLError),
      gethostname = ''host'',
      utcnow = ''2024-01-01T00:00:00''\<rparr>"

definition only_cmd :: "string \<Rightarrow> string \<Rightarrow> env" where
  \<comment> \<open>a host where just one command line works, and prints \<open>out\<close>\<close>
  "only_cmd cmd out =
     no_tools\<lparr>check_output := (\<lambda>hist c. if c = cmd then Inr out else Inl CalledProcessError)\<rparr>"

definition gpu0 :: device where
  "gpu0 =
     \<lparr>id_gpu = 0, uuid = Some ''GPU-abc'', name = ''T4'', driverVersion = Some ''535.54'',
      temperature = 45, utilization = 10, mem_used = 100, mem_total = 8192,
      p_draw = 30, p_limit = 70, fan = None, processes = []\<rparr>"

definition start :: "device list \<Rightarrow> rstate" where
  "start gs = \<lparr>gpus = gs, appended = 0, calls = []\<rparr>"

definition gpu1 :: device where
  "gpu1 = gpu0\<lparr>id_gpu := 1, uuid := Some ''GPU-1''\<rparr>"

definition xml_report :: string where
  "xml_report =
     ''<gpu><uuid>GPU-1</uuid><process_info><pid>1234</pid>''
       @ ''<used_memory>512 MiB</used_memory><process_name>train.py</process_name>''
       @ ''</process_info></gpu>''"

definition pmon_report :: string where
  "pmon_report =
     ''# gpu pid type sm mem enc dec fb command'' @ [CHR 0x0A]
       @ ''0 4567 C 1 2 - - - python3''"

definition raising_cmd :: "string \<Rightarrow> exn \<Rightarrow> env" where
  \<comment> \<open>a host where one command line raises \<open>e\<close> and the others exit with an error status\<close>
  "raising_cmd cmd e =
     no_tools\<lparr>check_output := (\<lambda>hist c. if c = cmd then Inl e else Inl CalledProcessError)\<rparr>"

definition library_env :: "nvml_proc list \<Rightarrow> nvml_proc list \<Rightarrow> env" where
  \<comment> \<open>a host where the monitoring library works and reports the same two lists for every
      device; it cannot name a process\<close>
  "library_env compute_procs graphics_procs =
     no_tools
       \<lparr>import_pynvml := (\<lambda>hist. Inr ()),
        nvmlInit := (\<lambda>hist. Inr ()),
        nvmlDeviceGetHandleByIndex := (\<lambda>hist i. Inr i),
        nvmlDeviceGetComputeRunningProcesses := (\<lambda>hist h. Inr compute_procs),
        nvmlDeviceGetGraphicsRunningProcesses := (\<lambda>hist h. Inr graphics_procs),
        nvmlShutdown := (\<lambda>hist. Inr ())\<rparr>"

definition table_report :: string where
  "table_report =
     ''+--------------------------------+'' @ [CHR 0x0A] @
     ''| Processes:                     |'' @ [CHR 0x0A] @
     ''|================================|'' @ [CHR 0x0A] @
     ''| 0 1 N/A 4567 C python3 2048MiB |'' @ [CHR 0x0A] @
     ''+--------------------------------+''"

definition csv_row :: string where
  "csv_row = ''0, GPU-abc, Tesla T4, 535.54, 45, 10, 100, 8192, [N/A], 70.00, 30''"

definition csv_row_no_fan :: string where
  "csv_row_no_fan = ''0, GPU-abc, Tesla T4, 535.54, 45, 10, 100, 8192, 30, 70, [N/A]''"

definition na_process_info :: string where
  "na_process_info =
     ''<pid>1234</pid><used_memory>N/A</used_memory><process_name>train.py</process_name>''"

section \<open>What every method preserves\<close>

lemma append_only_refl: "append_only g g"
  by (simp add: append_only_def)

lemma append_only_trans: "append_only a b \<Longrightarrow> append_only b c \<Longrightarrow> append_only a c"
  unfolding append_only_def
  by (metis (no_types, lifting) device.surjective device.update_convs(12) prefix_order.order_trans device.select_convs)

lemma append_only_all_refl: "list_all2 append_only gs gs"
  by (simp add: list_all2_refl append_only_refl)

lemma append_only_all_trans:
  "list_all2 append_only a b \<Longrightarrow> list_all2 append_only b c \<Longrightarrow> list_all2 append_only a c"
  by (rule list_all2_trans[where ?P1.0 = append_only and ?P2.0 = append_only]) (auto intro: append_only_trans)

lemma grows_refl: "grows k c s s"
  by (simp add: grows_def append_only_all_refl)

lemma grows_trans: "grows k c s t \<Longrightarrow> grows k c t u \<Longrightarrow> grows k c s u"
  unfolding grows_def
  by (auto intro: append_only_all_trans split: if_splits)

lemma grows_length: "grows k c s t \<Longrightarrow> length (gpus t) = length (gpus s)"
  by (auto simp: grows_def dest: list_all2_lengthD)


lemma final_state_simps [simp]:
  "final_state (Returns s) = s" "final_state (Raises e s) = s"
  by (simp_all add: final_state_def)

lemma final_state_except [simp]:
  "final_state (except_Exception r) = final_state r"
  "final_state (except_CalledProcessError r) = final_state r"
  by (cases r; simp add: except_Exception_def except_CalledProcessError_def)+

lemma total_procs_attach:
  "total_procs (attach sel p gs) = total_procs gs + length (filter sel gs)"
  by (induction gs) (simp_all add: total_procs_def attach_def)

lemma append_only_attach: "list_all2 append_only gs (attach sel p gs)"
  by (induction gs) (simp_all add: attach_def append_only_def)

lemma grows_attach_counted: "grows k True s (attach_counted sel p s)"
  by (simp add: grows_def attach_counted_def append_only_attach total_procs_attach)

lemma grows_attach: "grows k False s (s\<lparr>gpus := attach sel p (gpus s)\<rparr>)"
  by (simp add: grows_def append_only_attach)

lemma total_procs_append_at:
  "i < length gs \<Longrightarrow> total_procs (append_at i p gs) = Suc (total_procs gs)"
proof (induction gs arbitrary: i)
  case Nil
  then show ?case by simp
next
  case (Cons g gs)
  then show ?case
    by (cases i) (simp_all add: total_procs_def append_at_def)
qed

lemma append_only_append_at: "list_all2 append_only gs (append_at i p gs)"
proof (cases "i < length gs")
  case True
  then show ?thesis
    by (simp add: append_at_def list_all2_conv_all_nth nth_list_update append_only_def)
next
  case False
  then show ?thesis
    by (simp add: append_at_def append_only_all_refl list_update_beyond)
qed

lemma grows_call_out:
  "method_of c = k \<Longrightarrow> call_out c f s = (r, s') \<Longrightarrow> grows k b s s'"
  by (auto simp: call_out_def grows_def append_only_all_refl)

lemma grows_run_cmd:
  "method_of (Check_output cmd) = k \<Longrightarrow> run_cmd env cmd s = (r, s') \<Longrightarrow> grows k b s s'"
  by (auto simp: run_cmd_def call_out_def grows_def append_only_all_refl split: sum.splits)

lemma for_each_grows_aux:
  assumes step: "\<And>x t. x \<in> set xs \<Longrightarrow> grows k c s t \<Longrightarrow> grows k c t (final_state (body x t))"
  shows "grows k c s t \<Longrightarrow> grows k c s (final_state (for_each body xs t))"
  using step
proof (induction xs arbitrary: t)
  case Nil
  then show ?case by simp
next
  case (Cons x xs)
  have one: "grows k c s (final_state (body x t))"
    using Cons.prems(1) Cons.prems(2)[of x t] by (auto intro: grows_trans)
  show ?case
  proof (cases "body x t")
    case (Returns t')
    with one have "grows k c s t'" by simp
    then have "grows k c s (final_state (for_each body xs t'))"
      using Cons.IH[of t'] Cons.prems(2) by simp
    with Returns show ?thesis by simp
  next
    case (Raises e t')
    with one show ?thesis by simp
  qed
qed

lemma for_each_grows:
  assumes "\<And>x t. x \<in> set xs \<Longrightarrow> grows k c s t \<Longrightarrow> grows k c t (final_state (body x t))"
  shows "grows k c s (final_state (for_each body xs s))"
  using for_each_grows_aux[of xs k c s body s] assms grows_refl by blast

subsection \<open>Method 1 keeps the relation\<close>

lemma grows_nvml_process:
  assumes "i < length (gpus s)"
  shows "grows 1 True s (final_state (nvml_process env i proc s))"
proof (cases "memory_mb proc")
  case (Inl e)
  then show ?thesis by (simp add: nvml_process_def grows_refl)
next
  case (Inr mb)
  then show ?thesis
    using assms
    by (simp add: nvml_process_def call_out_def grows_def append_only_append_at
        total_procs_append_at)
qed

lemma grows_nvml_device:
  assumes "i < length (gpus s)"
  shows "grows 1 True s (final_state (nvml_device env i s))"
proof -
  obtain r1 s1 where c1: "call_out (NvmlDeviceGetHandleByIndex i)
      (\<lambda>hist. nvmlDeviceGetHandleByIndex env hist i) s = (r1, s1)"
    by (cases "call_out (NvmlDeviceGetHandleByIndex i)
      (\<lambda>hist. nvmlDeviceGetHandleByIndex env hist i) s") auto
  have i1: "grows 1 True s s1" using c1 by (rule grows_call_out[rotated]) simp
  show ?thesis
  proof (cases r1)
    case (Inl e)
    with c1 i1 show ?thesis by (simp add: nvml_device_def)
  next
    case (Inr h)
    obtain r2 s2 where c2: "call_out (NvmlDeviceGetComputeRunningProcesses h)
        (\<lambda>hist. nvmlDeviceGetComputeRunningProcesses env hist h) s1 = (r2, s2)"
      by (cases "call_out (NvmlDeviceGetComputeRunningProcesses h)
        (\<lambda>hist. nvmlDeviceGetComputeRunningProcesses env hist h) s1") auto
    have i2: "grows 1 True s1 s2" using c2 by (rule grows_call_out[rotated]) simp
    show ?thesis
    proof (cases r2)
      case (Inl e)
      with Inr c1 c2 i1 i2 show ?thesis
        by (auto simp: nvml_device_def intro: grows_trans)
    next
      case cp: (Inr compute_procs)
      obtain r3 s3 where c3: "call_out (NvmlDeviceGetGraphicsRunningProcesses h)
          (\<lambda>hist. nvmlDeviceGetGraphicsRunningProcesses env hist h) s2 = (r3, s3)"
        by (cases "call_out (NvmlDeviceGetGraphicsRunningProcesses h)
          (\<lambda>hist. nvmlDeviceGetGraphicsRunningProcesses env hist h) s2") auto
      have i3: "grows 1 True s2 s3" using c3 by (rule grows_call_out[rotated]) simp
      have i03: "grows 1 True s s3" using i1 i2 i3 by (blast intro: grows_trans)
      show ?thesis
      proof (cases r3)
        case (Inl e)
        with Inr cp c1 c2 c3 i03 show ?thesis
          by (simp add: nvml_device_def)
      next
        case gp: (Inr graphics_procs)
        have len: "length (gpus s3) = length (gpus s)" using i03 by (rule grows_length)
        have "grows 1 True s3 (final_state (for_each (nvml_process env i)
                 (compute_procs @ graphics_procs) s3))"
        proof (rule for_each_grows)
          fix x t
          assume "grows 1 True s3 t"
          then have "i < length (gpus t)" using len assms by (simp add: grows_length)
          then show "grows 1 True t (final_state (nvml_process env i x t))"
            by (rule grows_nvml_process)
        qed
        with i03 have "grows 1 True s (final_state (for_each (nvml_process env i)
                 (compute_procs @ graphics_procs) s3))"
          by (rule grows_trans)
        with Inr cp gp c1 c2 c3 show ?thesis
          by (simp add: nvml_device_def)
      qed
    qed
  qed
qed


lemma method_of_cmds:
  "method_of (Check_output ''nvidia-smi -x -q'') = 2"
  "method_of (Check_output ''nvidia-smi'') = 4"
  "method_of (Check_output ''nvidia-smi pmon -c 1 -s mu'') = 5"
  by (simp_all add: queries_def compute_apps_cmd_def)

lemma final_state_and_then:
  "final_state (and_then r f) = (case r of Returns s \<Rightarrow> final_state (f s) | Raises e s \<Rightarrow> s)"
  by (cases r) (simp_all add: and_then_def)

lemma grows_method1: "grows 1 True s (final_state (method1 env s))"
proof -
  obtain r1 s1 where c1: "call_out Import_pynvml (import_pynvml env) s = (r1, s1)"
    by (cases "call_out Import_pynvml (import_pynvml env) s") auto
  have i1: "grows 1 True s s1" using c1 by (rule grows_call_out[rotated]) simp
  show ?thesis
  proof (cases r1)
    case (Inl e)
    with c1 i1 show ?thesis by (simp add: method1_def)
  next
    case (Inr u)
    obtain r2 s2 where c2: "call_out NvmlInit (nvmlInit env) s1 = (r2, s2)"
      by (cases "call_out NvmlInit (nvmlInit env) s1") auto
    have i2: "grows 1 True s s2"
      using i1 grows_call_out[OF _ c2, of 1 True] by (auto intro: grows_trans)
    show ?thesis
    proof (cases r2)
      case (Inl e)
      with Inr c1 c2 i2 show ?thesis by (simp add: method1_def)
    next
      case u2: (Inr u')
      let ?loop = "for_each (nvml_device env) [0..<length (gpus s2)] s2"
      have "grows 1 True s2 (final_state ?loop)"
      proof (rule for_each_grows)
        fix x t
        assume "x \<in> set [0..<length (gpus s2)]" and "grows 1 True s2 t"
        then have "x < length (gpus t)" by (simp add: grows_length)
        then show "grows 1 True t (final_state (nvml_device env x t))"
          by (rule grows_nvml_device)
      qed
      with i2 have i3: "grows 1 True s (final_state ?loop)" by (rule grows_trans)
      show ?thesis
      proof (cases ?loop)
        case (Raises e s3)
        with Inr u2 c1 c2 i3 show ?thesis
          by (simp add: method1_def and_then_def)
      next
        case (Returns s3)
        obtain r4 s4 where c4: "call_out NvmlShutdown (nvmlShutdown env) s3 = (r4, s4)"
          by (cases "call_out NvmlShutdown (nvmlShutdown env) s3") auto
        have "grows 1 True s s4"
          using i3 Returns grows_call_out[OF _ c4, of 1 True] by (auto intro: grows_trans)
        with Inr u2 c1 c2 c4 Returns show ?thesis
          by (cases r4) (simp_all add: method1_def and_then_def)
      qed
    qed
  qed
qed

subsection \<open>Method 2 keeps the relation\<close>

lemma grows_xml_process_info:
  "grows 2 True s (final_state (xml_process_info env u proc s))"
  by (auto simp: xml_process_info_def grows_refl grows_attach_counted
      split: sum.splits option.splits)

lemma grows_xml_gpu_block: "grows 2 True s (final_state (xml_gpu_block env b s))"
  by (auto simp: xml_gpu_block_def grows_refl split: option.splits
      intro!: for_each_grows grows_xml_process_info)

lemma grows_method2: "grows 2 True s (final_state (method2 env s))"
proof (cases "appended s = 0")
  case False
  then show ?thesis by (simp add: method2_def grows_refl)
next
  case True
  obtain r1 s1 where c1: "run_cmd env ''nvidia-smi -x -q'' s = (r1, s1)"
    by (cases "run_cmd env ''nvidia-smi -x -q'' s") auto
  have i1: "grows 2 True s s1" using c1 by (rule grows_run_cmd[rotated]) (rule method_of_cmds)
  show ?thesis
  proof (cases r1)
    case (Inl e)
    with True c1 i1 show ?thesis by (simp add: method2_def)
  next
    case (Inr xml)
    have "grows 2 True s1 (final_state (for_each (xml_gpu_block env)
            (findall_between ''<gpu>'' ''</gpu>'' 0 xml) s1))"
      by (rule for_each_grows) (rule grows_xml_gpu_block)
    with i1 have "grows 2 True s (final_state (for_each (xml_gpu_block env)
            (findall_between ''<gpu>'' ''</gpu>'' 0 xml) s1))"
      by (rule grows_trans)
    with True Inr c1 show ?thesis by (simp add: method2_def)
  qed
qed

subsection \<open>Method 3 keeps the relation\<close>

lemma method_of_compute_apps:
  "pq \<in> set queries \<Longrightarrow> method_of (Check_output (compute_apps_cmd pq)) = 3"
  by (auto simp: queries_def compute_apps_cmd_def)

lemma grows_compute_apps_queries:
  "set qs \<subseteq> set queries \<Longrightarrow> compute_apps_queries env qs pout s = (r, s')
   \<Longrightarrow> grows 3 True s s'"
proof (induction qs arbitrary: pout s)
  case Nil
  then show ?case by (simp add: grows_refl)
next
  case (Cons pq rest)
  obtain r1 s1 where c1: "run_cmd env (compute_apps_cmd pq) s = (r1, s1)"
    by (cases "run_cmd env (compute_apps_cmd pq) s") auto
  have "pq \<in> set queries" using Cons.prems(1) by simp
  then have i1: "grows 3 True s s1"
    using c1 grows_run_cmd method_of_compute_apps by blast
  have rest: "set rest \<subseteq> set queries" using Cons.prems(1) by simp
  show ?case
  proof (cases r1)
    case (Inl e)
    show ?thesis
    proof (cases "e = CalledProcessError")
      case True
      with Inl c1 Cons.prems(2) have "compute_apps_queries env rest pout s1 = (r, s')"
        by simp
      then have "grows 3 True s1 s'" using Cons.IH rest by blast
      with i1 show ?thesis by (rule grows_trans)
    next
      case False
      with Inl c1 Cons.prems(2) i1 show ?thesis by simp
    qed
  next
    case (Inr out)
    show ?thesis
    proof (cases "out \<noteq> [] \<and> \<not> str_in ''No running'' out")
      case True
      with Inr c1 Cons.prems(2) i1 show ?thesis by auto
    next
      case False
      with Inr c1 Cons.prems(2) have "compute_apps_queries env rest out s1 = (r, s')"
        by auto
      then have "grows 3 True s1 s'" using Cons.IH rest by blast
      with i1 show ?thesis by (rule grows_trans)
    qed
  qed
qed

lemma grows_compute_apps_row: "grows 3 True s (final_state (compute_apps_row env parts s))"
  by (auto simp: compute_apps_row_def grows_refl grows_attach_counted split: sum.splits)

lemma grows_compute_apps_line: "grows 3 True s (final_state (compute_apps_line env line s))"
  by (simp add: compute_apps_line_def Let_def grows_refl grows_compute_apps_row)

lemma grows_method3: "grows 3 True s (final_state (method3 env s))"
proof (cases "appended s = 0")
  case False
  then show ?thesis by (simp add: method3_def grows_refl)
next
  case True
  obtain r1 s1 where c1: "compute_apps_queries env queries [] s = (r1, s1)"
    by (cases "compute_apps_queries env queries [] s") auto
  have i1: "grows 3 True s s1" using c1 grows_compute_apps_queries by blast
  show ?thesis
  proof (cases r1)
    case (Inl e)
    with True c1 i1 show ?thesis by (simp add: method3_def)
  next
    case (Inr pout)
    have "grows 3 True s1 (final_state (for_each (compute_apps_line env) (splitlines pout) s1))"
      by (rule for_each_grows) (rule grows_compute_apps_line)
    with i1 have "grows 3 True s
        (final_state (for_each (compute_apps_line env) (splitlines pout) s1))"
      by (rule grows_trans)
    with True Inr c1 i1 show ?thesis by (simp add: method3_def)
  qed
qed

subsection \<open>Method 4 keeps the relation\<close>

lemma grows_table_lines: "grows 4 True s (final_state (table_lines env b ls s))"
proof (induction ls arbitrary: b s)
  case Nil
  then show ?case by (simp add: grows_refl)
next
  case (Cons line rest)
  have att: "grows 4 True s (final_state (table_lines env b' rest (attach_counted sel p s)))"
    for b' sel p
    by (rule grows_trans[OF grows_attach_counted Cons.IH])
  show ?case
    by (auto simp: Let_def Cons.IH att split: sum.splits prod.splits)
qed

lemma grows_method4: "grows 4 True s (final_state (method4 env s))"
proof (cases "appended s = 0")
  case False
  then show ?thesis by (simp add: method4_def grows_refl)
next
  case True
  obtain r1 s1 where c1: "run_cmd env ''nvidia-smi'' s = (r1, s1)"
    by (cases "run_cmd env ''nvidia-smi'' s") auto
  have i1: "grows 4 True s s1" using c1 by (rule grows_run_cmd[rotated]) (rule method_of_cmds)
  show ?thesis
  proof (cases r1)
    case (Inl e)
    with True c1 i1 show ?thesis by (simp add: method4_def)
  next
    case (Inr tbl)
    have "grows 4 True s (final_state (table_lines env False (splitlines tbl) s1))"
      using i1 grows_table_lines by (rule grows_trans)
    with True Inr c1 show ?thesis by (simp add: method4_def)
  qed
qed

subsection \<open>Method 5 keeps the relation\<close>

lemma grows_pmon_row: "grows 5 False s (final_state (pmon_row env parts s))"
  by (auto simp: pmon_row_def grows_refl grows_attach split: sum.splits prod.splits)

lemma grows_pmon_line: "grows 5 False s (final_state (pmon_line env line s))"
  by (simp add: pmon_line_def Let_def grows_refl grows_pmon_row)

lemma grows_method5: "grows 5 False s (final_state (method5 env s))"
proof (cases "appended s = 0")
  case False
  then show ?thesis by (simp add: method5_def grows_refl)
next
  case True
  obtain r1 s1 where c1: "run_cmd env ''nvidia-smi pmon -c 1 -s mu'' s = (r1, s1)"
    by (cases "run_cmd env ''nvidia-smi pmon -c 1 -s mu'' s") auto
  have i1: "grows 5 False s s1" using c1 by (rule grows_run_cmd[rotated]) (rule method_of_cmds)
  show ?thesis
  proof (cases r1)
    case (Inl e)
    with True c1 i1 show ?thesis by (simp add: method5_def)
  next
    case (Inr pmon)
    have "grows 5 False s1 (final_state (for_each (pmon_line env) (splitlines pmon) s1))"
      by (rule for_each_grows) (rule grows_pmon_line)
    with i1 have "grows 5 False s
        (final_state (for_each (pmon_line env) (splitlines pmon) s1))"
      by (rule grows_trans)
    with True Inr c1 show ?thesis by (simp add: method5_def)
  qed
qed



lemma skip_method2: "appended s \<noteq> 0 \<Longrightarrow> method2 env s = Returns s"
  by (simp add: method2_def)
lemma skip_method3: "appended s \<noteq> 0 \<Longrightarrow> method3 env s = Returns s"
  by (simp add: method3_def)
lemma skip_method4: "appended s \<noteq> 0 \<Longrightarrow> method4 env s = Returns s"
  by (simp add: method4_def)
lemma skip_method5: "appended s \<noteq> 0 \<Longrightarrow> method5 env s = Returns s"
  by (simp add: method5_def)

lemma length_methods [simp]: "length (methods env) = 5"
  by (simp add: methods_def)

lemma nth_cases5:
  assumes "j < (5::nat)"
  obtains "j = 0" | "j = 1" | "j = 2" | "j = 3" | "j = 4"
  using assms by linarith

lemma skip_method_nth:
  assumes "appended s \<noteq> 0" "1 \<le> j" "j < 5"
  shows "(methods env ! j) s = Returns s"
  using assms(3)
proof (cases j rule: nth_cases5)
  case 1
  with assms(2) show ?thesis by simp
qed (simp_all add: methods_def assms(1) skip_method2 skip_method3 skip_method4 skip_method5)

lemma grows_method_nth:
  assumes "j < 5"
  shows "grows (Suc j) (j < 4) s (final_state ((methods env ! j) s))"
  using assms
proof (cases j rule: nth_cases5)
  case 1
  then show ?thesis using grows_method1[of s env] by (simp add: methods_def eval_nat_numeral)
next
  case 2
  then show ?thesis using grows_method2[of s env] by (simp add: methods_def eval_nat_numeral)
next
  case 3
  then show ?thesis using grows_method3[of s env] by (simp add: methods_def eval_nat_numeral)
next
  case 4
  then show ?thesis using grows_method4[of s env] by (simp add: methods_def eval_nat_numeral)
next
  case 5
  then show ?thesis using grows_method5[of s env] by (simp add: methods_def eval_nat_numeral)
qed

lemma and_then_assoc: "and_then (and_then r f) g = and_then r (\<lambda>s. and_then (f s) g)"
  by (cases r) (simp_all add: and_then_def)

lemma and_then_Returns [simp]: "and_then (Returns s) f = f s"
  by (simp add: and_then_def)

lemma and_then_Raises [simp]: "and_then (Raises e s) f = Raises e s"
  by (simp add: and_then_def)

lemma and_then_Returns_right [simp]: "and_then r Returns = r"
  by (cases r) simp_all

lemma run_all_snoc: "run_all (ms @ [m]) s = and_then (run_all ms s) m"
  by (induction ms arbitrary: s) (auto simp: and_then_def split: outcome.splits)

lemma sorted_map_const: "\<forall>x\<in>set xs. f x = (c::nat) \<Longrightarrow> sorted (map f xs)"
  by (induction xs) simp_all

lemma run_methods_0 [simp]:
  "run_methods env 0 hist gs = Returns \<lparr>gpus = gs, appended = 0, calls = hist\<rparr>"
  by (simp add: run_methods_def)

lemma run_methods_Suc:
  "j < 5 \<Longrightarrow> run_methods env (Suc j) hist gs
     = and_then (run_methods env j hist gs) (methods env ! j)"
  by (simp add: run_methods_def take_Suc_conv_app_nth run_all_snoc)

lemma run_methods_Raises:
  assumes "run_methods env j hist gs = Raises e s" "j \<le> k" "k \<le> 5"
  shows "run_methods env k hist gs = Raises e s"
  using assms(2,3)
proof (induction k rule: dec_induct)
  case base
  show ?case by (rule assms(1))
next
  case (step n)
  then show ?case by (simp add: run_methods_Suc)
qed

lemma run_methods_skip:
  assumes "run_methods env j hist gs = Returns s" "appended s \<noteq> 0" "1 \<le> j" "j \<le> k" "k \<le> 5"
  shows "run_methods env k hist gs = Returns s"
  using assms(4,5)
proof (induction k rule: dec_induct)
  case base
  show ?case by (rule assms(1))
next
  case (step n)
  then have "run_methods env n hist gs = Returns s" by simp
  moreover have "(methods env ! n) s = Returns s"
    using assms(2,3) step by (intro skip_method_nth) simp_all
  ultimately show ?case using step by (simp add: run_methods_Suc)
qed

text \<open>The state after the first \<open>i\<close> methods.\<close>

lemma run_methods_chain:
  assumes "i \<le> 5"
  shows "list_all2 append_only gs (gpus (final_state (run_methods env i hist gs)))
     \<and> (\<exists>cs. calls (final_state (run_methods env i hist gs)) = hist @ cs
            \<and> list_all (\<lambda>c. 1 \<le> method_of c \<and> method_of c \<le> i) cs
            \<and> sorted (map method_of cs))
     \<and> (i \<le> 4 \<longrightarrow> appended (final_state (run_methods env i hist gs)) + total_procs gs
            = total_procs (gpus (final_state (run_methods env i hist gs))))
     \<and> (i = 5 \<longrightarrow> appended (final_state (run_methods env 5 hist gs))
            = appended (final_state (run_methods env 4 hist gs)))"
  using assms
proof (induction i)
  case 0
  then show ?case by (simp add: append_only_all_refl)
next
  case (Suc i)
  let ?o = "run_methods env i hist gs"
  let ?s = "final_state ?o"
  have i5: "i < 5" using Suc.prems by simp
  have IH: "list_all2 append_only gs (gpus ?s)"
    "\<exists>cs. calls ?s = hist @ cs \<and> list_all (\<lambda>c. 1 \<le> method_of c \<and> method_of c \<le> i) cs
        \<and> sorted (map method_of cs)"
    "i \<le> 4 \<longrightarrow> appended ?s + total_procs gs = total_procs (gpus ?s)"
    using Suc.IH i5 by simp_all
  obtain cs where cs: "calls ?s = hist @ cs"
    "list_all (\<lambda>c. 1 \<le> method_of c \<and> method_of c \<le> i) cs" "sorted (map method_of cs)"
    using IH(2) by blast
  let ?s' = "final_state (run_methods env (Suc i) hist gs)"
  have g: "grows (Suc i) (i < 4) ?s ?s'"
  proof (cases ?o)
    case (Returns s)
    then show ?thesis using grows_method_nth[OF i5, of s env] i5 by (simp add: run_methods_Suc)
  next
    case (Raises e s)
    then show ?thesis using i5 by (simp add: run_methods_Suc grows_refl)
  qed
  from g obtain cs' where cs': "calls ?s' = calls ?s @ cs'"
    "list_all (\<lambda>x. method_of x = Suc i) cs'"
    unfolding grows_def by blast
  have a: "list_all2 append_only gs (gpus ?s')"
    using IH(1) g unfolding grows_def by (blast intro: append_only_all_trans)
  have b: "calls ?s' = hist @ (cs @ cs')" using cs(1) cs'(1) by simp
  have b1: "list_all (\<lambda>c. 1 \<le> method_of c \<and> method_of c \<le> Suc i) (cs @ cs')"
    using cs(2) cs'(2) by (auto simp: list_all_iff)
  have b2: "sorted (map method_of (cs @ cs'))"
    using cs(2,3) cs'(2) sorted_map_const[of cs' method_of "Suc i"]
    by (auto simp: sorted_append list_all_iff)
  have c: "Suc i \<le> 4 \<longrightarrow> appended ?s' + total_procs gs = total_procs (gpus ?s')"
    using IH(3) g unfolding grows_def by (auto split: if_splits)
  have d: "Suc i = 5 \<longrightarrow> appended (final_state (run_methods env 5 hist gs))
            = appended (final_state (run_methods env 4 hist gs))"
    using g unfolding grows_def by (auto split: if_splits)
  show ?case using a b b1 b2 c d by blast
qed


lemma run_methods_append_only:
  "i \<le> 5 \<Longrightarrow> list_all2 append_only gs (gpus (final_state (run_methods env i hist gs)))"
  by (rule run_methods_chain[THEN conjunct1])

lemma run_methods_calls:
  "i \<le> 5 \<Longrightarrow> \<exists>cs. calls (final_state (run_methods env i hist gs)) = hist @ cs
      \<and> list_all (\<lambda>c. 1 \<le> method_of c \<and> method_of c \<le> i) cs \<and> sorted (map method_of cs)"
  by (rule run_methods_chain[THEN conjunct2, THEN conjunct1])

lemma run_methods_counted:
  assumes "i \<le> 4"
  shows "appended (final_state (run_methods env i hist gs)) + total_procs gs
     = total_procs (gpus (final_state (run_methods env i hist gs)))"
proof -
  have "i \<le> 5" using assms by simp
  from run_methods_chain[OF this, THEN conjunct2, THEN conjunct2, THEN conjunct1] assms
  show ?thesis by (rule mp)
qed

lemma run_methods_uncounted:
  "appended (final_state (run_methods env 5 hist gs))
     = appended (final_state (run_methods env 4 hist gs))"
proof -
  have "(5::nat) \<le> 5" by simp
  from run_methods_chain[OF this, THEN conjunct2, THEN conjunct2, THEN conjunct2]
  show ?thesis by simp
qed

subsection \<open>A pass that attributes nothing\<close>

lemma append_only_same_length:
  "append_only g g' \<Longrightarrow> length (processes g') = length (processes g) \<Longrightarrow> g' = g"
proof -
  assume a: "append_only g g'" and l: "length (processes g') = length (processes g)"
  from a have p: "prefix (processes g) (processes g')" and e: "g' = g\<lparr>processes := processes g'\<rparr>"
    by (simp_all add: append_only_def)
  from p l have "processes g' = processes g"
    by (auto simp: prefix_def)
  with e show "g' = g" by simp
qed

lemma append_only_length: "append_only g g' \<Longrightarrow> length (processes g) \<le> length (processes g')"
  by (simp add: append_only_def prefix_length_le)

lemma total_procs_mono:
  "list_all2 append_only gs gs' \<Longrightarrow> total_procs gs \<le> total_procs gs'"
  by (induction rule: list_all2_induct)
    (auto simp: total_procs_def dest: append_only_length)

lemma nothing_attributed:
  "list_all2 append_only gs gs' \<Longrightarrow> total_procs gs' = total_procs gs \<Longrightarrow> gs' = gs"
proof (induction rule: list_all2_induct)
  case Nil
  then show ?case by simp
next
  case (Cons g gs g' gs')
  have 1: "length (processes g) \<le> length (processes g')"
    using Cons.hyps(1) by (rule append_only_length)
  have 2: "total_procs gs \<le> total_procs gs'"
    using Cons.hyps(2) by (rule total_procs_mono)
  have 3: "length (processes g') + total_procs gs' = length (processes g) + total_procs gs"
    using Cons.prems by (simp add: total_procs_def)
  from 1 2 3 have "length (processes g') = length (processes g)" "total_procs gs' = total_procs gs"
    by linarith+
  then show ?case
    using Cons.hyps(1) Cons.IH append_only_same_length by blast
qed

lemma zero_attributions_leave_devices:
  assumes "total_procs (gpus (final_state (run_methods env 5 hist gs))) = total_procs gs"
  shows "gpus (final_state (run_methods env 5 hist gs)) = gs"
  using run_methods_append_only[of 5 gs env hist] assms by (intro nothing_attributed) simp_all

subsection \<open>The join of method 2\<close>

lemma joined_Nil [simp]: "joined [] gs = gs"
  by (induction gs) (simp_all add: joined_def)

lemma attach_joined:
  "attach (\<lambda>g. uuid g = Some u) p (joined rs gs) = joined (rs @ [(u, p)]) gs"
  by (induction gs) (simp_all add: attach_def joined_def)

lemma gpus_attach_counted [simp]: "gpus (attach_counted sel p s) = attach sel p (gpus s)"
  by (simp add: attach_counted_def)

lemma block_records_Cons:
  "block_records maxd u (proc # procs) =
     (case xml_process maxd proc of
        Inr (Some p) \<Rightarrow> (u, p) # block_records maxd u procs
      | _ \<Rightarrow> block_records maxd u procs)"
  by (simp add: block_records_def List.map_filter_simps split: sum.splits option.splits)

lemma join_process_infos:
  assumes "gpus t = joined rs0 g0"
  shows "(\<forall>t'. for_each (xml_process_info env u) procs t = Returns t' \<longrightarrow>
            gpus t' = joined (rs0 @ block_records (max_str_digits env) u procs) g0)
       \<and> (\<forall>e t'. for_each (xml_process_info env u) procs t = Raises e t' \<longrightarrow>
            (\<exists>rs'. prefix rs' (block_records (max_str_digits env) u procs)
                \<and> gpus t' = joined (rs0 @ rs') g0))"
  using assms
proof (induction procs arbitrary: t rs0)
  case Nil
  then show ?case by (simp add: block_records_def List.map_filter_simps)
next
  case (Cons proc procs)
  show ?case
  proof (cases "xml_process (max_str_digits env) proc")
    case (Inl e)
    then have "for_each (xml_process_info env u) (proc # procs) t = Raises e t"
      by (simp add: xml_process_info_def)
    then show ?thesis
      using Cons.prems by (auto intro: exI[of _ "[]"])
  next
    case (Inr r)
    show ?thesis
    proof (cases r)
      case None
      have b: "block_records (max_str_digits env) u (proc # procs)
          = block_records (max_str_digits env) u procs"
        using Inr None by (simp add: block_records_Cons)
      have f: "for_each (xml_process_info env u) (proc # procs) t
          = for_each (xml_process_info env u) procs t"
        using Inr None by (simp add: xml_process_info_def)
      show ?thesis
        unfolding b f by (rule Cons.IH[OF Cons.prems])
    next
      case (Some p)
      let ?t = "attach_counted (\<lambda>g. uuid g = Some u) p t"
      have g: "gpus ?t = joined ((rs0 @ [(u, p)])) g0"
        using Cons.prems by (simp add: attach_joined)
      have b: "block_records (max_str_digits env) u (proc # procs)
          = (u, p) # block_records (max_str_digits env) u procs"
        using Inr Some by (simp add: block_records_Cons)
      have f: "for_each (xml_process_info env u) (proc # procs) t
          = for_each (xml_process_info env u) procs ?t"
        using Inr Some by (simp add: xml_process_info_def)
      have "\<exists>rs'. prefix rs' ((u, p) # block_records (max_str_digits env) u procs)
                \<and> gpus t' = joined (rs0 @ rs') g0"
        if "for_each (xml_process_info env u) procs ?t = Raises e t'" for e t'
      proof -
        from Cons.IH[OF g] that obtain rs' where
          "prefix rs' (block_records (max_str_digits env) u procs)"
          "gpus t' = joined ((rs0 @ [(u, p)]) @ rs') g0"
          by blast
        then have "prefix ((u, p) # rs') ((u, p) # block_records (max_str_digits env) u procs)
            \<and> gpus t' = joined (rs0 @ (u, p) # rs') g0"
          by simp
        then show ?thesis by blast
      qed
      then show ?thesis
        unfolding b f using Cons.IH[OF g] by simp
    qed
  qed
qed

lemma join_gpu_block:
  assumes "gpus t = joined rs0 g0"
  shows "(\<forall>t'. xml_gpu_block env b t = Returns t' \<longrightarrow>
            gpus t' = joined (rs0 @ gpu_block_records (max_str_digits env) b) g0)
       \<and> (\<forall>e t'. xml_gpu_block env b t = Raises e t' \<longrightarrow>
            (\<exists>rs'. prefix rs' (gpu_block_records (max_str_digits env) b)
                \<and> gpus t' = joined (rs0 @ rs') g0))"
proof (cases "re_search (match_text ''<uuid>'' ''</uuid>'') b")
  case None
  then show ?thesis using assms by (simp add: xml_gpu_block_def gpu_block_records_def)
next
  case (Some m)
  then show ?thesis
    using join_process_infos[OF assms, of env "str_strip m"
        "findall_between ''<process_info>'' ''</process_info>'' 0 b"]
    by (simp add: xml_gpu_block_def gpu_block_records_def)
qed

lemma join_gpu_blocks:
  assumes "gpus t = joined rs0 g0"
  shows "(\<forall>t'. for_each (xml_gpu_block env) bs t = Returns t' \<longrightarrow>
            gpus t' = joined (rs0 @ concat (map (gpu_block_records (max_str_digits env)) bs)) g0)
       \<and> (\<forall>e t'. for_each (xml_gpu_block env) bs t = Raises e t' \<longrightarrow>
            (\<exists>rs'. prefix rs' (concat (map (gpu_block_records (max_str_digits env)) bs))
                \<and> gpus t' = joined (rs0 @ rs') g0))"
  using assms
proof (induction bs arbitrary: t rs0)
  case Nil
  then show ?case by simp
next
  case (Cons b bs)
  show ?case
  proof (cases "xml_gpu_block env b t")
    case (Raises e t1)
    with join_gpu_block[OF Cons.prems, of env b] obtain rs' where
      "prefix rs' (gpu_block_records (max_str_digits env) b)" "gpus t1 = joined (rs0 @ rs') g0"
      by blast
    then have "prefix rs' (concat (map (gpu_block_records (max_str_digits env)) (b # bs)))
        \<and> gpus t1 = joined (rs0 @ rs') g0"
      by (simp add: prefix_prefix)
    then have "\<exists>rs'. prefix rs' (concat (map (gpu_block_records (max_str_digits env)) (b # bs)))
        \<and> gpus t1 = joined (rs0 @ rs') g0"
      by blast
    with Raises show ?thesis by simp
  next
    case (Returns t1)
    with join_gpu_block[OF Cons.prems, of env b]
    have g: "gpus t1 = joined (rs0 @ gpu_block_records (max_str_digits env) b) g0"
      by simp
    have f: "for_each (xml_gpu_block env) (b # bs) t = for_each (xml_gpu_block env) bs t1"
      using Returns by simp
    have "\<exists>rs'. prefix rs' (concat (map (gpu_block_records (max_str_digits env)) (b # bs)))
                \<and> gpus t' = joined (rs0 @ rs') g0"
      if "for_each (xml_gpu_block env) bs t1 = Raises e t'" for e t'
    proof -
      from Cons.IH[OF g] that obtain rs' where
        "prefix rs' (concat (map (gpu_block_records (max_str_digits env)) bs))"
        "gpus t' = joined ((rs0 @ gpu_block_records (max_str_digits env) b) @ rs') g0"
        by blast
      then have "prefix (gpu_block_records (max_str_digits env) b @ rs')
            (concat (map (gpu_block_records (max_str_digits env)) (b # bs)))
          \<and> gpus t' = joined (rs0 @ gpu_block_records (max_str_digits env) b @ rs') g0"
        by simp
      then show ?thesis by blast
    qed
    then show ?thesis
      unfolding f using Cons.IH[OF g] by simp
  qed
qed

lemma xml_records_blocks:
  "xml_records maxd xml
     = concat (map (gpu_block_records maxd) (findall_between ''<gpu>'' ''</gpu>'' 0 xml))"
  by (simp add: xml_records_def)


lemma re_search_Some: "re_search m s = Some r \<Longrightarrow> \<exists>t. m t = Some r"
  by (induction s) (auto split: option.splits)

lemma match_number_digits:
  "match_number op u cl s = Some ds \<Longrightarrow> ds \<noteq> [] \<and> (\<forall>c\<in>set ds. isdigit c)"
  by (auto simp: match_number_def Let_def split: if_splits dest: set_takeWhileD)

lemma digits_from_Some: "\<forall>c\<in>set cs. isdigit c \<Longrightarrow> \<exists>ds. digits_from acc cs = Some ds"
  by (induction cs arbitrary: acc) simp_all

lemma digitpart_digits:
  "ds \<noteq> [] \<Longrightarrow> \<forall>c\<in>set ds. isdigit c \<Longrightarrow> \<exists>v. digitpart ds = Some v"
  by (cases ds) (simp_all add: digitpart_def digits_from_Some)

lemma strip_with_unchanged:
  assumes "ds \<noteq> []" "\<not> P (hd ds)" "\<not> P (last ds)"
  shows "strip_with P ds = ds"
proof -
  have "dropWhile P ds = ds" using assms(1,2) by (cases ds) simp_all
  moreover have "dropWhile P (rev ds) = rev ds"
    using assms(1,3) by (cases "rev ds") (simp_all add: last_rev[symmetric] hd_rev)
  ultimately show ?thesis by (simp add: strip_with_def)
qed

lemma isdigit_not_space: "isdigit c \<Longrightarrow> \<not> numeric_space c"
  by (auto simp: isdigit_def numeric_space_def)

lemma py_int_digits:
  assumes "ds \<noteq> []" "\<forall>c\<in>set ds. isdigit c"
  shows "\<exists>v. py_int 0 ds = Inr v"
proof -
  have "isdigit (hd ds)" "isdigit (last ds)" using assms by simp_all
  then have st: "strip_with numeric_space ds = ds"
    using assms(1) by (intro strip_with_unchanged) (simp_all add: isdigit_not_space)
  have "hd ds \<noteq> CHR ''-''" "hd ds \<noteq> CHR ''+''"
    using \<open>isdigit (hd ds)\<close> by (auto simp: isdigit_def)
  then have sg: "split_sign ds = (False, ds)"
    using assms(1) by (cases ds) (simp_all add: split_sign_def)
  obtain v where "digitpart ds = Some v" using digitpart_digits[OF assms] by blast
  then show ?thesis by (simp add: py_int_def st sg)
qed

lemma py_int_group:
  "re_search (match_number op u cl) s = Some ds \<Longrightarrow> \<exists>v. py_int 0 ds = Inr v"
  using re_search_Some match_number_digits py_int_digits by metis

lemma xml_process_unlimited: "\<exists>r. xml_process 0 proc = Inr r"
proof (cases "re_search (match_number ''<pid>'' [] ''</pid>'') proc")
  case None
  then show ?thesis by (simp add: xml_process_def)
next
  case (Some pid_m)
  then obtain v where v: "py_int 0 pid_m = Inr v" using py_int_group by blast
  show ?thesis
  proof (cases "re_search (match_number ''<used_memory>'' ''MiB'' ''</used_memory>'') proc")
    case None
    with Some v show ?thesis by (simp add: xml_process_def then_exn_def)
  next
    case m: (Some mem_m)
    then obtain w where "py_int 0 mem_m = Inr w" using py_int_group by blast
    with Some v m show ?thesis by (simp add: xml_process_def then_exn_def)
  qed
qed

lemma for_each_returns:
  "(\<And>x s. \<exists>s'. body x s = Returns s') \<Longrightarrow> \<exists>s'. for_each body xs s = Returns s'"
proof (induction xs arbitrary: s)
  case Nil
  then show ?case by simp
next
  case (Cons x xs)
  obtain s1 where "body x s = Returns s1" using Cons.prems by blast
  then show ?case using Cons.IH[of s1] Cons.prems by simp
qed

lemma xml_process_info_returns:
  "max_str_digits env = 0 \<Longrightarrow> \<exists>s'. xml_process_info env u proc s = Returns s'"
  using xml_process_unlimited[of proc]
  by (auto simp: xml_process_info_def split: option.splits)

lemma xml_gpu_block_returns:
  "max_str_digits env = 0 \<Longrightarrow> \<exists>s'. xml_gpu_block env b s = Returns s'"
  by (auto simp: xml_gpu_block_def split: option.splits
      intro!: for_each_returns xml_process_info_returns)

subsection \<open>Method 1 appends every entry of the two lists\<close>

lemma nvml_process_pids:
  assumes "i < length (gpus s)"
  shows "length (gpus (final_state (nvml_process env i proc s))) = length (gpus s)
    \<and> map pid (processes (gpus (final_state (nvml_process env i proc s)) ! i))
        = map pid (processes (gpus s ! i)) @ map proc_pid (filter reported [proc])"
proof (cases "usedGpuMemory proc")
  case NoAttribute
  then show ?thesis
    using assms
    by (simp add: nvml_process_def memory_mb_def call_out_def append_at_def
        except_Exception_def reported_def)
next
  case NotAvailable
  then show ?thesis
    by (simp add: nvml_process_def memory_mb_def except_Exception_def reported_def)
next
  case (Bytes b)
  then show ?thesis
    using assms
    by (simp add: nvml_process_def memory_mb_def call_out_def append_at_def
        except_Exception_def reported_def)
qed

lemma nvml_process_returns: "\<exists>s'. nvml_process env i proc s = Returns s'"
  by (cases "nvml_process env i proc s")
    (auto simp: nvml_process_def except_Exception_def split: sum.splits prod.splits outcome.splits)

lemma nvml_processes_pids:
  assumes "i < length (gpus s)"
  shows "length (gpus (final_state (for_each (nvml_process env i) procs s))) = length (gpus s)
    \<and> map pid (processes (gpus (final_state (for_each (nvml_process env i) procs s)) ! i))
        = map pid (processes (gpus s ! i)) @ map proc_pid (filter reported procs)"
  using assms
proof (induction procs arbitrary: s)
  case Nil
  then show ?case by simp
next
  case (Cons proc procs)
  obtain s1 where s1: "nvml_process env i proc s = Returns s1"
    using nvml_process_returns by blast
  have one: "length (gpus s1) = length (gpus s)"
    "map pid (processes (gpus s1 ! i))
        = map pid (processes (gpus s ! i)) @ map proc_pid (filter reported [proc])"
    using nvml_process_pids[OF Cons.prems, of env proc] s1 by simp_all
  then have "i < length (gpus s1)" using Cons.prems by simp
  from Cons.IH[OF this] one s1 show ?case by simp
qed

subsection \<open>\<open>int(float(s))\<close> is exact on short decimal integers\<close>

lemma bitlen_0: "bitlen 0 = 0"
  by (subst bitlen.simps) simp

lemma bitlen_le: "n < 2 ^ k \<Longrightarrow> bitlen n \<le> k"
proof (induction n arbitrary: k rule: bitlen.induct)
  case (1 n)
  show ?case
  proof (cases "n = 0")
    case True
    then show ?thesis by (simp add: bitlen_0)
  next
    case False
    then obtain j where k: "k = Suc j" using "1.prems" by (cases k) auto
    then have "n div 2 < 2 ^ j" using "1.prems" by auto
    then have "bitlen (n div 2) \<le> j" using "1.IH"[OF False] by simp
    then show ?thesis using False k by (subst bitlen.simps) simp
  qed
qed

lemma bitlen_1: "bitlen (Suc 0) = Suc 0"
  by (subst bitlen.simps) (simp add: bitlen_0)

lemma floor_log2_nat_le:
  assumes "n < 2 ^ 53"
  shows "floor_log2 (of_nat n) \<le> 52"
proof -
  have q: "quotient_of (of_nat n :: rat) = (int n, 1)"
    using quotient_of_int[of "int n"] by simp
  have "bitlen n \<le> 53" using assms by (rule bitlen_le)
  then show ?thesis
    by (simp add: floor_log2_def q Let_def bitlen_1)
qed

lemma round_half_even_int: "round_half_even (of_int m) = m"
  by (simp add: round_half_even_def)

lemma to_double_nat:
  assumes "n < 2 ^ 53"
  shows "to_double (of_nat n) = Finite (of_nat n)"
proof (cases "n = 0")
  case True
  then show ?thesis by (simp add: to_double_def)
next
  case False
  define e where "e = max (floor_log2 (of_nat n)) (- 1022)"
  have e: "- 1022 \<le> e" "e \<le> 52" using floor_log2_nat_le[OF assms] by (simp_all add: e_def)
  define k where "k = nat (52 - e)"
  have ulp: "power_int (2::rat) (e - 52) = 1 / 2 ^ k"
    using e by (simp add: power_int_def k_def field_simps)
  have d: "(of_nat n :: rat) / (1 / 2 ^ k) = of_int (int (n * 2 ^ k))"
    by simp
  have r: "of_int (round_half_even ((of_nat n :: rat) / (1 / 2 ^ k))) * (1 / 2 ^ k)
      = (of_nat n :: rat)"
    unfolding d round_half_even_int by simp
  have "(of_nat n :: rat) < 2 ^ 53"
    using assms by (metis of_nat_less_iff of_nat_numeral of_nat_power)
  also have "(2::rat) ^ 53 \<le> 2 ^ 1024" by (rule power_increasing) simp_all
  finally have small: "\<not> (2::rat) ^ 1024 \<le> of_nat n" by simp
  have pos: "\<bar>of_nat n :: rat\<bar> = of_nat n" "\<not> (of_nat n :: rat) < 0" "(of_nat n :: rat) \<noteq> 0"
    using False by simp_all
  show ?thesis
    unfolding to_double_def Let_def pos e_def[symmetric] ulp r
    using small pos by simp
qed

lemma split_at_none: "\<forall>c\<in>set s. \<not> P c \<Longrightarrow> split_at P s = (s, None)"
proof -
  assume "\<forall>c\<in>set s. \<not> P c"
  then have "dropWhile (\<lambda>c. \<not> P c) s = []" by (simp add: dropWhile_eq_Nil_conv)
  then show ?thesis unfolding split_at_def by (simp only: list.case)
qed

lemma lower_digit: "isdigit c \<Longrightarrow> lower_char c = c"
  by (auto simp: isdigit_def lower_char_def Let_def)

lemma int_float_digits:
  assumes "ds \<noteq> []" and "\<forall>c\<in>set ds. isdigit c"
    and "digitpart ds = Some rs" and "digits_value rs < 2 ^ 53"
  shows "int_float ds = Inr (int (digits_value rs))"
proof -
  have hd: "isdigit (hd ds)" "isdigit (last ds)" using assms(1,2) by simp_all
  have "\<not> numeric_space (hd ds)" "\<not> numeric_space (last ds)"
    using hd by (auto simp: isdigit_def numeric_space_def)
  then have st: "strip_with numeric_space ds = ds"
    using assms(1) by (intro strip_with_unchanged)
  have "hd ds \<noteq> CHR ''-''" "hd ds \<noteq> CHR ''+''" using hd by (auto simp: isdigit_def)
  then have sg: "split_sign ds = (False, ds)"
    using assms(1) by (cases ds) (simp_all add: split_sign_def)
  have low: "str_lower ds = ds"
    using assms(2) by (simp add: str_lower_def lower_digit map_idI)
  have "hd ds \<noteq> CHR ''i''" "hd ds \<noteq> CHR ''n''" using hd by (auto simp: isdigit_def)
  then have nm: "ds \<noteq> ''inf''" "ds \<noteq> ''infinity''" "ds \<noteq> ''nan''" by auto
  have "\<forall>c\<in>set ds. \<not> (c = CHR ''e'' \<or> c = CHR ''E'')" "\<forall>c\<in>set ds. \<not> c = CHR ''.''"
    using assms(2) by (auto simp: isdigit_def)
  then have sp: "split_at (\<lambda>c. c = CHR ''e'' \<or> c = CHR ''E'') ds = (ds, None)"
    "split_at (\<lambda>c. c = CHR ''.'') ds = (ds, None)"
    by (simp_all add: split_at_none)
  have fl: "floatnumber ds = Some (of_nat (digits_value rs))"
    by (simp add: floatnumber_def float_number_def sp assms(3))
  show ?thesis
    by (simp add: int_float_def py_float_def st sg low nm fl to_double_nat[OF assms(4)]
        int_of_float_def)
qed

subsection \<open>Where a tag pattern cannot match\<close>

lemma match_number_prefix: "match_number op u cl s = Some r \<Longrightarrow> prefix op s"
  by (cases "prefix op s") (simp_all add: match_number_def)

lemma prefix_straddle:
  assumes "prefix op (p @ op @ rest)" "p \<noteq> []" "op \<noteq> []" "hd op \<notin> set (tl op)"
  shows "prefix op p"
proof -
  from assms(1) have "prefix op p \<or> (\<exists>us. op = p @ us \<and> prefix us (op @ rest))"
    by (simp only: prefix_append)
  then consider "prefix op p" | us where "op = p @ us" "prefix us (op @ rest)"
    by blast
  then show ?thesis
  proof cases
    case 1
    then show ?thesis .
  next
    case 2
    show ?thesis
    proof (cases us)
      case Nil
      with 2 show ?thesis by simp
    next
      case (Cons a us')
      with 2(2) assms(3) have "a = hd op" by (cases op) simp_all
      moreover have "a \<in> set (tl op)" using 2(1) Cons assms(2) by (cases p) auto
      ultimately show ?thesis using assms(4) by simp
    qed
  qed
qed

lemma re_search_skip_before:
  assumes m: "\<And>t r. m t = Some r \<Longrightarrow> prefix op t"
    and "op \<noteq> []" "hd op \<notin> set (tl op)" "\<not> str_in op pre"
  shows "re_search m (pre @ op @ rest) = re_search m (op @ rest)"
  using assms(4)
proof (induction pre)
  case Nil
  then show ?case by simp
next
  case (Cons c pre)
  have "\<not> prefix op (c # pre)" "\<not> str_in op pre" using Cons.prems by simp_all
  then have "\<not> prefix op ((c # pre) @ op @ rest)"
    using prefix_straddle[of op "c # pre" rest] assms(2,3) by blast
  then have "m ((c # pre) @ op @ rest) = None"
    using m by (cases "m ((c # pre) @ op @ rest)") auto
  then show ?case using Cons.IH[OF \<open>\<not> str_in op pre\<close>] by simp
qed

lemma re_search_skip_plain:
  assumes m: "\<And>t r. m t = Some r \<Longrightarrow> prefix op t"
    and "op \<noteq> []" "hd op \<notin> set w"
  shows "re_search m (w @ rest) = re_search m rest"
  using assms(3)
proof (induction w)
  case Nil
  then show ?case by simp
next
  case (Cons c w)
  have "\<not> prefix op ((c # w) @ rest)"
    using Cons.prems assms(2) by (cases op) simp_all
  then have "m ((c # w) @ rest) = None"
    using m by (cases "m ((c # w) @ rest)") auto
  then show ?case using Cons by simp
qed

lemma re_search_absent:
  assumes m: "\<And>t r. m t = Some r \<Longrightarrow> prefix op t"
    and "op \<noteq> []" "\<not> str_in op s"
  shows "re_search m s = None"
  using assms(3)
proof (induction s)
  case Nil
  have "m [] = None" using m[of "[]"] assms(2) by (cases "m []") auto
  then show ?case by simp
next
  case (Cons c s)
  then have "m (c # s) = None" using m[of "c # s"] by (cases "m (c # s)") auto
  then show ?case using Cons by simp
qed

lemma sentinel_no_number:
  assumes "sentinel x"
  shows "match_number op u cl (op @ x @ rest) = None"
  using assms
  by (auto simp: sentinel_def match_number_def Let_def isspace_def isdigit_def)

lemma used_memory_sentinel:
  assumes "sentinel x"
    and "\<not> str_in ''<used_memory>'' pre" and "\<not> str_in ''<used_memory>'' post"
  shows "re_search (match_number ''<used_memory>'' ''MiB'' ''</used_memory>'')
           (pre @ ''<used_memory>'' @ x @ ''</used_memory>'' @ post) = None"
proof -
  let ?m = "match_number ''<used_memory>'' ''MiB'' ''</used_memory>''"
  have m: "\<And>t r. ?m t = Some r \<Longrightarrow> prefix ''<used_memory>'' t"
    by (rule match_number_prefix)
  have x: "CHR ''<'' \<notin> set x" using assms(1) by (auto simp: sentinel_def)
  have "re_search ?m (pre @ ''<used_memory>'' @ x @ ''</used_memory>'' @ post)
      = re_search ?m (''<used_memory>'' @ x @ ''</used_memory>'' @ post)"
    using re_search_skip_before[OF m _ _ assms(2), where rest = "x @ ''</used_memory>'' @ post"]
    by simp
  also have "\<dots> = re_search ?m ((''used_memory>'' @ x) @ ''</used_memory>'' @ post)"
    using sentinel_no_number[OF assms(1), where op = "''<used_memory>''" and u = "''MiB''"
        and cl = "''</used_memory>''" and rest = "''</used_memory>'' @ post"]
    by simp
  also have "\<dots> = re_search ?m (''</used_memory>'' @ post)"
    using x by (intro re_search_skip_plain[OF m]) simp_all
  also have "\<dots> = re_search ?m (''/used_memory>'' @ post)"
    by (simp add: match_number_def)
  also have "\<dots> = re_search ?m post"
    by (intro re_search_skip_plain[OF m]) simp_all
  also have "\<dots> = None"
    using assms(3) by (intro re_search_absent[OF m]) simp_all
  finally show ?thesis .
qed

lemma xml_process_memory:
  assumes "re_search (match_number ''<used_memory>'' ''MiB'' ''</used_memory>'') proc = None"
    and "xml_process maxd proc = Inr (Some p)"
  shows "pmem p = 0"
  using assms
  by (auto simp: xml_process_def then_exn_def split: option.splits sum.splits)

lemma except_Exception_returns: "\<exists>s'. except_Exception r = Returns s'"
  by (cases r) (simp_all add: except_Exception_def)

lemma method1_returns: "\<exists>s'. method1 env s = Returns s'"
  unfolding method1_def by (rule except_Exception_returns)

lemma method2_returns: "\<exists>s'. method2 env s = Returns s'"
  unfolding method2_def by (simp add: except_Exception_returns)

lemma method4_returns: "\<exists>s'. method4 env s = Returns s'"
  unfolding method4_def by (simp add: except_Exception_returns)

subsection \<open>Rows of the plain-text table and of the device query\<close>

lemma length_str_split: "length (str_split sep s) = Suc (count_list s sep)"
  by (induction s) (auto split: list.splits)

lemma count_list_dropWhile: "count_list (dropWhile P s) c \<le> count_list s c"
  by (induction s) auto

lemma count_list_strip_with: "count_list (strip_with P s) c \<le> count_list s c"
proof -
  have "count_list (strip_with P s) c = count_list (dropWhile P (rev (dropWhile P s))) c"
    by (simp add: strip_with_def)
  also have "\<dots> \<le> count_list (rev (dropWhile P s)) c" by (rule count_list_dropWhile)
  also have "\<dots> \<le> count_list s c" by (simp add: count_list_dropWhile)
  finally show ?thesis .
qed

lemma table_lines_few_columns:
  assumes "list_all (\<lambda>line. count_list line CHR ''|'' < 6) ls"
  shows "table_lines env b ls s = Returns s"
  using assms
proof (induction ls arbitrary: b)
  case Nil
  then show ?case by simp
next
  case (Cons line rest)
  have "count_list line CHR ''|'' < 6" using Cons.prems by simp
  then have "count_list (str_strip_chars [CHR ''|'', CHR 0x0A] line) CHR ''|'' < 6"
    unfolding str_strip_chars_def by (rule le_less_trans[OF count_list_strip_with])
  then have "length (map str_strip
      (str_split CHR ''|'' (str_strip_chars [CHR ''|'', CHR 0x0A] line))) < 7"
    by (simp add: length_str_split)
  then show ?case using Cons by (simp add: Let_def)
qed

lemma sentinel_metric:
  "x = ''N/A'' \<or> x = ''[N/A]'' \<Longrightarrow> int_float_or_0 x = Inl ValueError"
  by (elim disjE; hypsubst; code_simp)

lemma sentinel_float:
  "int_float ''N/A'' = Inl ValueError" "int_float ''[N/A]'' = Inl ValueError"
  by code_simp+

lemma sentinel_fan: "x = ''N/A'' \<or> x = ''[N/A]'' \<Longrightarrow> fan_speed x = Inr None"
  by (auto simp: fan_speed_def)

lemma csv_row_parts:
  "map str_strip (str_split CHR '','' csv_row)
     = [''0'', ''GPU-abc'', ''Tesla T4'', ''535.54'', ''45'', ''10'', ''100'', ''8192'',
        ''[N/A]'', ''70.00'', ''30'']"
  by code_simp

lemma csv_row_lines: "splitlines (str_strip csv_row) = [csv_row]"
  by code_simp

lemma small_numbers:
  "int_float ''45'' = Inr 45" "int_float ''10'' = Inr 10"
  "int_float ''100'' = Inr 100" "int_float ''8192'' = Inr 8192"
  using int_float_digits[of "''45''" "[5, 4]"] int_float_digits[of "''10''" "[0, 1]"]
    int_float_digits[of "''100''" "[0, 0, 1]"] int_float_digits[of "''8192''" "[2, 9, 1, 8]"]
  by (simp_all add: isdigit_def digitpart_def digit_val_def)

lemma py_int_0: "py_int 4300 ''0'' = Inr 0"
  by code_simp

lemma csv_row_raises: "gpu_of_line 4300 csv_row = Inl ValueError"
  by (simp add: gpu_of_line_def csv_row_parts Let_def then_exn_def py_int_0 int_float_or_0_def
      small_numbers sentinel_float)

lemma sentinel_metric_raises:
  assumes "10 \<le> length (str_split CHR '','' line)"
    and "k \<in> {4, 5, 6, 7, 8, 9}"
    and "str_strip (str_split CHR '','' line ! k) = ''N/A''
         \<or> str_strip (str_split CHR '','' line ! k) = ''[N/A]''"
  shows "\<exists>e. gpu_of_line maxd line = Inl e"
proof -
  let ?parts = "map str_strip (str_split CHR '','' line)"
  have len: "\<not> length ?parts < 10" using assms(1) by simp
  have "k < length (str_split CHR '','' line)" using assms(1,2) by auto
  then have "?parts ! k = ''N/A'' \<or> ?parts ! k = ''[N/A]''" using assms(3) by simp
  then have bad: "int_float_or_0 (?parts ! k) = Inl ValueError" by (rule sentinel_metric)
  show ?thesis
    using assms(2) bad len
    unfolding gpu_of_line_def Let_def then_exn_def
    by (auto split: sum.splits)
qed

lemma fan_sentinel_is_absent:
  "gpu_of_line 4300 csv_row_no_fan
     = Inr (Some \<lparr>id_gpu = 0, uuid = Some ''GPU-abc'', name = ''Tesla T4'',
                  driverVersion = Some ''535.54'', temperature = 45, utilization = 10,
                  mem_used = 100, mem_total = 8192, p_draw = 30, p_limit = 70,
                  fan = None, processes = []\<rparr>)"
proof -
  have parts: "map str_strip (str_split CHR '','' csv_row_no_fan)
     = [''0'', ''GPU-abc'', ''Tesla T4'', ''535.54'', ''45'', ''10'', ''100'', ''8192'',
        ''30'', ''70'', ''[N/A]'']"
    by code_simp
  have more: "int_float ''30'' = Inr 30" "int_float ''70'' = Inr 70"
    using int_float_digits[of "''30''" "[0, 3]"] int_float_digits[of "''70''" "[0, 7]"]
    by (simp_all add: isdigit_def digitpart_def digit_val_def)
  show ?thesis
    by (simp add: gpu_of_line_def parts Let_def then_exn_def py_int_0 int_float_or_0_def
        small_numbers more fan_speed_def or_None_def)
qed

subsection \<open>Method 1 on one device of the list\<close>

text \<open>
  The loop over a device's entries touches that device only, and the loop over the devices
  visits each index once; so what method 1 leaves on device \<open>i\<close> is what the single
  visit of \<open>i\<close> appended.
\<close>

lemma nvml_process_elsewhere:
  "length (gpus (final_state (nvml_process env j proc s))) = length (gpus s)
   \<and> (k \<noteq> j \<longrightarrow> gpus (final_state (nvml_process env j proc s)) ! k = gpus s ! k)"
  by (cases "memory_mb proc") (simp_all add: nvml_process_def call_out_def append_at_def)

lemma nvml_processes_elsewhere:
  "length (gpus (final_state (for_each (nvml_process env j) procs s))) = length (gpus s)
   \<and> (k \<noteq> j \<longrightarrow> gpus (final_state (for_each (nvml_process env j) procs s)) ! k = gpus s ! k)"
proof (induction procs arbitrary: s)
  case Nil
  then show ?case by simp
next
  case (Cons proc procs)
  obtain s1 where s1: "nvml_process env j proc s = Returns s1"
    using nvml_process_returns by blast
  from nvml_process_elsewhere[of env j proc s k] s1 Cons.IH[of s1] show ?case by simp
qed

lemma nvml_device_returns: "\<exists>s'. nvml_device env j s = Returns s'"
  unfolding nvml_device_def by (rule except_Exception_returns)

lemma nvml_device_elsewhere:
  "length (gpus (final_state (nvml_device env j s))) = length (gpus s)
   \<and> (k \<noteq> j \<longrightarrow> gpus (final_state (nvml_device env j s)) ! k = gpus s ! k)"
  using nvml_processes_elsewhere[of env j _ _ k]
  by (auto simp: nvml_device_def call_out_def split: sum.splits)

lemma nvml_device_pids:
  assumes "i < length (gpus s)"
    and "nvmlDeviceGetHandleByIndex env (calls s) i = Inr h"
    and "nvmlDeviceGetComputeRunningProcesses env
           (calls s @ [NvmlDeviceGetHandleByIndex i]) h = Inr compute_procs"
    and "nvmlDeviceGetGraphicsRunningProcesses env
           (calls s @ [NvmlDeviceGetHandleByIndex i, NvmlDeviceGetComputeRunningProcesses h]) h
         = Inr graphics_procs"
  shows "map pid (processes (gpus (final_state (nvml_device env i s)) ! i))
        = map pid (processes (gpus s ! i))
            @ map proc_pid (filter reported (compute_procs @ graphics_procs))"
proof -
  let ?s3 = "s\<lparr>calls := calls s @ [NvmlDeviceGetHandleByIndex i,
      NvmlDeviceGetComputeRunningProcesses h, NvmlDeviceGetGraphicsRunningProcesses h]\<rparr>"
  have d: "final_state (nvml_device env i s)
      = final_state (for_each (nvml_process env i) (compute_procs @ graphics_procs) ?s3)"
    using assms(2-4) by (simp add: nvml_device_def call_out_def)
  have "i < length (gpus ?s3)" using assms(1) by simp
  from nvml_processes_pids[OF this, of env "compute_procs @ graphics_procs"]
  show ?thesis unfolding d by simp
qed

lemma nvml_devices_pids:
  assumes "i < length (gpus s)" and "distinct js"
    and h: "\<And>hist. nvmlDeviceGetHandleByIndex env hist i = Inr h"
    and c: "\<And>hist. nvmlDeviceGetComputeRunningProcesses env hist h = Inr compute_procs"
    and g: "\<And>hist. nvmlDeviceGetGraphicsRunningProcesses env hist h = Inr graphics_procs"
  shows "length (gpus (final_state (for_each (nvml_device env) js s))) = length (gpus s)
     \<and> map pid (processes (gpus (final_state (for_each (nvml_device env) js s)) ! i))
        = map pid (processes (gpus s ! i))
            @ (if i \<in> set js
               then map proc_pid (filter reported (compute_procs @ graphics_procs)) else [])"
  using assms(1,2)
proof (induction js arbitrary: s)
  case Nil
  then show ?case by simp
next
  case (Cons j js)
  obtain s1 where s1: "nvml_device env j s = Returns s1"
    using nvml_device_returns by blast
  have len: "length (gpus s1) = length (gpus s)"
    using nvml_device_elsewhere[of env j s i] s1 by simp
  then have i1: "i < length (gpus s1)" using Cons.prems(1) by simp
  have dj: "distinct js" "j \<notin> set js" using Cons.prems(2) by simp_all
  note IH = Cons.IH[OF i1 dj(1)]
  show ?case
  proof (cases "j = i")
    case True
    have "map pid (processes (gpus s1 ! i))
        = map pid (processes (gpus s ! i))
            @ map proc_pid (filter reported (compute_procs @ graphics_procs))"
      using nvml_device_pids[OF Cons.prems(1) h c g] s1 True by simp
    with IH s1 len True dj(2) show ?thesis by simp
  next
    case False
    then have "gpus s1 ! i = gpus s ! i"
      using nvml_device_elsewhere[of env j s i] s1 by simp
    with IH s1 len False show ?thesis by simp
  qed
qed

lemma for_each_returns_dev: "\<exists>s'. for_each (nvml_device env) js s = Returns s'"
proof (induction js arbitrary: s)
  case Nil
  then show ?case by simp
next
  case (Cons j js)
  obtain s1 where "nvml_device env j s = Returns s1" using nvml_device_returns by blast
  then show ?case using Cons.IH[of s1] by simp
qed

section \<open>The pass as a whole\<close>

text \<open>
  C8. For every device list and every behaviour of the library and of the driver tool, the
  devices after \<open>_add_process_info\<close> (whether it returned or raised) are the devices before
  it, in the same order, each one equal to what it was in every field but \<open>processes\<close>, and
  with a \<open>processes\<close> list that starts with the old one: entries are only appended.
\<close>

theorem resolver_appends_only:
  "list_all2 append_only gs (gpus (final_state (run_methods env 5 hist gs)))"
  by (rule run_methods_append_only) simp

text \<open>
  C1. The calls that a pass issues are ordered by method: first those of the monitoring
  library, then the XML report, the compute-apps queries, the plain report, and the process
  monitor. If method \<open>j\<close> attributes at least one process (the device list holds more
  entries after it than before), then the state after any later method \<open>k\<close> is the state
  after method \<open>j\<close>, log included: no call of a later method is issued.
\<close>

theorem first_success_wins:
  "sorted (map method_of (drop (length hist) (calls (final_state (run_methods env 5 hist gs)))))
   \<and> (1 \<le> j \<and> j \<le> k \<and> k \<le> 5
        \<and> total_procs (gpus (final_state (run_methods env (j - 1) hist gs)))
            < total_procs (gpus (final_state (run_methods env j hist gs)))
      \<longrightarrow> final_state (run_methods env k hist gs) = final_state (run_methods env j hist gs)
          \<and> list_all (\<lambda>c. 1 \<le> method_of c \<and> method_of c \<le> j)
               (drop (length hist) (calls (final_state (run_methods env 5 hist gs)))))"
proof (intro conjI impI)
  obtain cs5 where "calls (final_state (run_methods env 5 hist gs)) = hist @ cs5"
    "sorted (map method_of cs5)"
    using run_methods_calls[of 5 env hist gs] by auto
  then show "sorted (map method_of
          (drop (length hist) (calls (final_state (run_methods env 5 hist gs)))))"
    by simp
next
  assume h: "1 \<le> j \<and> j \<le> k \<and> k \<le> 5
        \<and> total_procs (gpus (final_state (run_methods env (j - 1) hist gs)))
            < total_procs (gpus (final_state (run_methods env j hist gs)))"
  then have j: "1 \<le> j" "j \<le> k" "k \<le> 5" "j \<le> 5" by simp_all
  have lt: "total_procs (gpus (final_state (run_methods env (j - 1) hist gs)))
            < total_procs (gpus (final_state (run_methods env j hist gs)))"
    using h by simp
  have later: "final_state (run_methods env n hist gs) = final_state (run_methods env j hist gs)"
    if n: "j \<le> n" "n \<le> 5" for n
  proof (cases "j = 5")
    case True
    with n show ?thesis by simp
  next
    case False
    with j have j4: "j \<le> 4" by simp
    have before: "appended (final_state (run_methods env (j - 1) hist gs)) + total_procs gs
        = total_procs (gpus (final_state (run_methods env (j - 1) hist gs)))"
      by (rule run_methods_counted) (use j4 in simp)
    have after: "appended (final_state (run_methods env j hist gs)) + total_procs gs
        = total_procs (gpus (final_state (run_methods env j hist gs)))"
      by (rule run_methods_counted) (rule j4)
    have pos: "appended (final_state (run_methods env j hist gs)) \<noteq> 0"
      using before after lt by linarith
    show ?thesis
    proof (cases "run_methods env j hist gs")
      case (Returns s)
      with pos have "run_methods env n hist gs = Returns s"
        using run_methods_skip[OF Returns _ j(1) n] by simp
      with Returns show ?thesis by simp
    next
      case (Raises e s)
      then have "run_methods env n hist gs = Raises e s"
        using run_methods_Raises n by blast
      with Raises show ?thesis by simp
    qed
  qed
  show "final_state (run_methods env k hist gs) = final_state (run_methods env j hist gs)"
    by (rule later) (rule j(2), rule j(3))
  have "final_state (run_methods env 5 hist gs) = final_state (run_methods env j hist gs)"
    by (rule later) (rule j(4), simp)
  moreover obtain cs where "calls (final_state (run_methods env j hist gs)) = hist @ cs"
    "list_all (\<lambda>c. 1 \<le> method_of c \<and> method_of c \<le> j) cs"
    using run_methods_calls[OF j(4), of env hist gs] by auto
  ultimately show "list_all (\<lambda>c. 1 \<le> method_of c \<and> method_of c \<le> j)
      (drop (length hist) (calls (final_state (run_methods env 5 hist gs))))"
    by simp
qed

lemma xml_example_run1:
  "run_methods (only_cmd ''nvidia-smi -x -q'' xml_report) 1 [] [gpu0, gpu1]
     = Returns \<lparr>gpus = [gpu0, gpu1], appended = 0, calls = [Import_pynvml]\<rparr>"
  by code_simp

lemma xml_example_run2:
  "run_methods (only_cmd ''nvidia-smi -x -q'' xml_report) 2 [] [gpu0, gpu1]
     = Returns
         \<lparr>gpus = [gpu0,
                  gpu1\<lparr>processes := [\<lparr>pid = 1234, pname = ''train.py'', pmem = 512\<rparr>]\<rparr>],
          appended = 1,
          calls = [Import_pynvml, Check_output ''nvidia-smi -x -q'']\<rparr>"
  by code_simp

theorem first_success_wins_witness:
  "(1::nat) \<le> 2 \<and> (2::nat) \<le> 5 \<and> (5::nat) \<le> 5
   \<and> total_procs (gpus (final_state
         (run_methods (only_cmd ''nvidia-smi -x -q'' xml_report) (2 - 1) [] [gpu0, gpu1])))
       < total_procs (gpus (final_state
         (run_methods (only_cmd ''nvidia-smi -x -q'' xml_report) 2 [] [gpu0, gpu1])))
   \<and> final_state (run_methods (only_cmd ''nvidia-smi -x -q'' xml_report) 5 [] [gpu0, gpu1])
       = final_state (run_methods (only_cmd ''nvidia-smi -x -q'' xml_report) 2 [] [gpu0, gpu1])
   \<and> list_all (\<lambda>c. 1 \<le> method_of c \<and> method_of c \<le> 2)
         (drop (length ([] :: call list))
            (calls (final_state
               (run_methods (only_cmd ''nvidia-smi -x -q'' xml_report) 5 [] [gpu0, gpu1]))))"
proof -
  have one: "(2::nat) - 1 = 1" by simp
  have h: "(1::nat) \<le> 2 \<and> (2::nat) \<le> 5 \<and> (5::nat) \<le> 5
     \<and> total_procs (gpus (final_state
         (run_methods (only_cmd ''nvidia-smi -x -q'' xml_report) (2 - 1) [] [gpu0, gpu1])))
       < total_procs (gpus (final_state
         (run_methods (only_cmd ''nvidia-smi -x -q'' xml_report) 2 [] [gpu0, gpu1])))"
    unfolding one xml_example_run1 xml_example_run2
    by (simp add: total_procs_def gpu0_def gpu1_def)
  from first_success_wins
         [of "[]" "only_cmd ''nvidia-smi -x -q'' xml_report" "[gpu0, gpu1]" 2 5] h
  show ?thesis by blast
qed

text \<open>
  C7, as the code has it. \<open>_add_process_info\<close> returns the device list, never a number.
  The count of the process entries appended is kept in the local counter \<open>appended\<close> for
  methods 1 to 4: after them the counter is the number of entries that the device list has
  gained.
\<close>

theorem resolver_returns_devices:
  "(case add_process_info env hist gs of
      Inl e \<Rightarrow> True
    | Inr v \<Rightarrow> v = DeviceList (gpus (final_state (run_methods env 5 hist gs))))
   \<and> appended (final_state (run_methods env 4 hist gs)) + total_procs gs
       = total_procs (gpus (final_state (run_methods env 4 hist gs)))"
proof -
  have "case add_process_info env hist gs of
      Inl e \<Rightarrow> True
    | Inr v \<Rightarrow> v = DeviceList (gpus (final_state (run_methods env 5 hist gs)))"
    by (cases "run_methods env 5 hist gs") (simp_all add: add_process_info_def)
  moreover have "appended (final_state (run_methods env 4 hist gs)) + total_procs gs
       = total_procs (gpus (final_state (run_methods env 4 hist gs)))"
    by (rule run_methods_counted) simp
  ultimately show ?thesis by simp
qed

lemma pmon_example_run:
  "run_methods (only_cmd ''nvidia-smi pmon -c 1 -s mu'' pmon_report) 5 [] [gpu0]
     = Returns
         \<lparr>gpus = [gpu0\<lparr>processes := [\<lparr>pid = 4567, pname = ''python3'', pmem = 0\<rparr>]\<rparr>],
          appended = 0,
          calls = [Import_pynvml, Check_output ''nvidia-smi -x -q'',
                   Check_output (compute_apps_cmd ''gpu_uuid,pid,process_name,used_memory''),
                   Check_output (compute_apps_cmd ''gpu_uuid,pid,process_name,used_gpu_memory''),
                   Check_output ''nvidia-smi'',
                   Check_output ''nvidia-smi pmon -c 1 -s mu'']\<rparr>"
  by code_simp

theorem resolver_returns_count_counterexample:
  "add_process_info (only_cmd ''nvidia-smi pmon -c 1 -s mu'' pmon_report) [] [gpu0]
     = Inr (DeviceList
         [gpu0\<lparr>processes := [\<lparr>pid = 4567, pname = ''python3'', pmem = 0\<rparr>]\<rparr>])
   \<and> add_process_info (only_cmd ''nvidia-smi pmon -c 1 -s mu'' pmon_report) [] [gpu0]
       \<noteq> Inr (IntVal 1)
   \<and> appended (final_state
        (run_methods (only_cmd ''nvidia-smi pmon -c 1 -s mu'' pmon_report) 5 [] [gpu0])) = 0"
  unfolding add_process_info_def pmon_example_run by simp

section \<open>The XML report\<close>

text \<open>
  C6. When method 2 runs and the driver tool prints a report, the device list after it is
  the device list before it with process entries of the report attached by uuid: a device
  gains exactly the entries reported in \<open><gpu>\<close> blocks whose uuid is the device's own
  \<open>uuid\<close>, in the order of the report, whatever its position or its \<open>id\<close>; an entry whose
  uuid no device has is attached to none. The entries attached are all those of the report,
  or, when a number in it is longer than the interpreter's limit on integer literals, those
  before it.
\<close>

theorem xml_join_is_by_uuid:
  assumes "appended s = 0"
    and "check_output env (calls s) ''nvidia-smi -x -q'' = Inr out"
  shows "\<exists>rs. prefix rs (xml_records (max_str_digits env) (str_strip out))
           \<and> (max_str_digits env = 0 \<longrightarrow> rs = xml_records 0 (str_strip out))
           \<and> gpus (final_state (method2 env s)) = joined rs (gpus s)"
proof -
  let ?s1 = "s\<lparr>calls := calls s @ [Check_output ''nvidia-smi -x -q'']\<rparr>"
  let ?bs = "findall_between ''<gpu>'' ''</gpu>'' 0 (str_strip out)"
  let ?loop = "for_each (xml_gpu_block env) ?bs ?s1"
  have m: "method2 env s = except_Exception ?loop"
    using assms by (simp add: method2_def run_cmd_def call_out_def)
  have g: "gpus ?s1 = joined [] (gpus s)" by simp
  note j = join_gpu_blocks[OF g, of env ?bs]
  show ?thesis
  proof (cases ?loop)
    case (Returns t')
    with j have "gpus t' = joined (xml_records (max_str_digits env) (str_strip out)) (gpus s)"
      by (simp add: xml_records_blocks)
    moreover have "final_state (method2 env s) = t'"
      using m Returns by (simp add: except_Exception_def)
    ultimately show ?thesis by auto
  next
    case (Raises e t')
    with j obtain rs' where rs': "prefix rs' (xml_records (max_str_digits env) (str_strip out))"
      "gpus t' = joined rs' (gpus s)"
      by (auto simp: xml_records_blocks)
    have "max_str_digits env \<noteq> 0"
      using Raises for_each_returns[of "xml_gpu_block env" ?bs ?s1] xml_gpu_block_returns[of env]
      by auto
    moreover have "final_state (method2 env s) = t'"
      using m Raises by (simp add: except_Exception_def)
    ultimately show ?thesis using rs' by auto
  qed
qed

theorem xml_join_is_by_uuid_witness:
  "appended (start [gpu0, gpu1]) = 0
   \<and> check_output (only_cmd ''nvidia-smi -x -q'' xml_report) (calls (start [gpu0, gpu1]))
        ''nvidia-smi -x -q'' = Inr xml_report
   \<and> (\<exists>rs. prefix rs
              (xml_records (max_str_digits (only_cmd ''nvidia-smi -x -q'' xml_report))
                 (str_strip xml_report))
         \<and> (max_str_digits (only_cmd ''nvidia-smi -x -q'' xml_report) = 0
              \<longrightarrow> rs = xml_records 0 (str_strip xml_report))
         \<and> gpus (final_state
              (method2 (only_cmd ''nvidia-smi -x -q'' xml_report) (start [gpu0, gpu1])))
             = joined rs (gpus (start [gpu0, gpu1])))"
proof -
  have h1: "appended (start [gpu0, gpu1]) = 0" by (simp add: start_def)
  have h2: "check_output (only_cmd ''nvidia-smi -x -q'' xml_report)
      (calls (start [gpu0, gpu1])) ''nvidia-smi -x -q'' = Inr xml_report"
    by (simp add: only_cmd_def)
  from xml_join_is_by_uuid[OF h1 h2] h1 h2 show ?thesis by blast
qed

lemma xml_example_records:
  "xml_records 4300 xml_report
     = [(''GPU-1'', \<lparr>pid = 1234, pname = ''train.py'', pmem = 512\<rparr>)]"
  by code_simp

section \<open>The strategies one by one\<close>

text \<open>
  C10. Method 1 does not deduplicate. Let the monitoring library be importable and
  initialisable, and let it answer the handle query of device \<open>i\<close> and the two process
  queries of that handle with the lists \<open>compute_procs\<close> and \<open>graphics_procs\<close>. Then
  after \<open>method1\<close> the pids of device \<open>i\<close> are the pids it had before, followed by the
  pids of \<open>compute_procs + graphics_procs\<close> in order, leaving out only the entries whose
  memory the library cannot give. So the pid of a process that stands in both lists, with
  its memory known, is counted at least twice in the device's \<open>processes\<close> after the one
  pass.
\<close>

theorem nvml_lists_are_not_deduplicated:
  assumes "i < length (gpus s)"
    and "\<And>hist. import_pynvml env hist = Inr ()"
    and "\<And>hist. nvmlInit env hist = Inr ()"
    and "\<And>hist. nvmlDeviceGetHandleByIndex env hist i = Inr h"
    and "\<And>hist. nvmlDeviceGetComputeRunningProcesses env hist h = Inr compute_procs"
    and "\<And>hist. nvmlDeviceGetGraphicsRunningProcesses env hist h = Inr graphics_procs"
    and "p \<in> set compute_procs" and "p \<in> set graphics_procs"
    and "usedGpuMemory p \<noteq> NotAvailable"
  shows "map pid (processes (gpus (final_state (method1 env s)) ! i))
          = map pid (processes (gpus s ! i))
              @ map proc_pid (filter reported (compute_procs @ graphics_procs))
       \<and> 2 \<le> count_list (map pid (processes (gpus (final_state (method1 env s)) ! i)))
                (proc_pid p)"
proof -
  let ?s2 = "s\<lparr>calls := calls s @ [Import_pynvml, NvmlInit]\<rparr>"
  let ?loop = "for_each (nvml_device env) [0..<length (gpus s)] ?s2"
  have i2: "i < length (gpus ?s2)" using assms(1) by simp
  obtain s3 where s3: "?loop = Returns s3"
    using for_each_returns_dev by blast
  have g3: "gpus (final_state (method1 env s)) = gpus s3"
    using assms(2,3) s3
    by (cases "nvmlShutdown env (calls s3)")
      (simp_all add: method1_def call_out_def and_then_def)
  have "map pid (processes (gpus (final_state ?loop) ! i))
        = map pid (processes (gpus ?s2 ! i))
            @ (if i \<in> set [0..<length (gpus s)]
               then map proc_pid (filter reported (compute_procs @ graphics_procs)) else [])"
    using nvml_devices_pids[OF i2 _ assms(4,5,6), of "[0..<length (gpus s)]"] by simp
  then have eq: "map pid (processes (gpus (final_state (method1 env s)) ! i))
          = map pid (processes (gpus s ! i))
              @ map proc_pid (filter reported (compute_procs @ graphics_procs))"
    using g3 s3 assms(1) by simp
  have "p \<in> set (filter reported compute_procs)" "p \<in> set (filter reported graphics_procs)"
    using assms(7,8,9) by (simp_all add: reported_def)
  then have "1 \<le> count_list (map proc_pid (filter reported compute_procs)) (proc_pid p)"
    "1 \<le> count_list (map proc_pid (filter reported graphics_procs)) (proc_pid p)"
    by (metis One_nat_def Suc_leI count_list_0_iff image_eqI list.set_map neq0_conv)+
  then show ?thesis unfolding eq by simp
qed


theorem nvml_lists_are_not_deduplicated_witness:
  "0 < length (gpus (start [gpu0]))
   \<and> (\<forall>hist. import_pynvml
          (library_env [\<lparr>proc_pid = 77, usedGpuMemory = Bytes 1048576000\<rparr>]
             [\<lparr>proc_pid = 77, usedGpuMemory = Bytes 1048576000\<rparr>]) hist = Inr ())
   \<and> (\<forall>hist. nvmlInit
          (library_env [\<lparr>proc_pid = 77, usedGpuMemory = Bytes 1048576000\<rparr>]
             [\<lparr>proc_pid = 77, usedGpuMemory = Bytes 1048576000\<rparr>]) hist = Inr ())
   \<and> (\<forall>hist. nvmlDeviceGetHandleByIndex
          (library_env [\<lparr>proc_pid = 77, usedGpuMemory = Bytes 1048576000\<rparr>]
             [\<lparr>proc_pid = 77, usedGpuMemory = Bytes 1048576000\<rparr>]) hist 0 = Inr 0)
   \<and> (\<forall>hist. nvmlDeviceGetComputeRunningProcesses
          (library_env [\<lparr>proc_pid = 77, usedGpuMemory = Bytes 1048576000\<rparr>]
             [\<lparr>proc_pid = 77, usedGpuMemory = Bytes 1048576000\<rparr>]) hist 0
        = Inr [\<lparr>proc_pid = 77, usedGpuMemory = Bytes 1048576000\<rparr>])
   \<and> (\<forall>hist. nvmlDeviceGetGraphicsRunningProcesses
          (library_env [\<lparr>proc_pid = 77, usedGpuMemory = Bytes 1048576000\<rparr>]
             [\<lparr>proc_pid = 77, usedGpuMemory = Bytes 1048576000\<rparr>]) hist 0
        = Inr [\<lparr>proc_pid = 77, usedGpuMemory = Bytes 1048576000\<rparr>])
   \<and> \<lparr>proc_pid = 77, usedGpuMemory = Bytes 1048576000\<rparr>
        \<in> set [\<lparr>proc_pid = 77, usedGpuMemory = Bytes 1048576000\<rparr>]
   \<and> usedGpuMemory \<lparr>proc_pid = 77, usedGpuMemory = Bytes 1048576000\<rparr> \<noteq> NotAvailable
   \<and> 2 \<le> count_list
        (map pid (processes (gpus (final_state
           (method1
              (library_env [\<lparr>proc_pid = 77, usedGpuMemory = Bytes 1048576000\<rparr>]
                 [\<lparr>proc_pid = 77, usedGpuMemory = Bytes 1048576000\<rparr>])
              (start [gpu0]))) ! 0)))
        (proc_pid \<lparr>proc_pid = 77, usedGpuMemory = Bytes 1048576000\<rparr>)"
proof -
  let ?p = "\<lparr>proc_pid = 77, usedGpuMemory = Bytes 1048576000\<rparr>"
  let ?E = "library_env [?p] [?p]"
  have h1: "0 < length (gpus (start [gpu0]))" by (simp add: start_def)
  have a: "\<And>hist. import_pynvml ?E hist = Inr ()" by (simp add: library_env_def)
  have b: "\<And>hist. nvmlInit ?E hist = Inr ()" by (simp add: library_env_def)
  have c: "\<And>hist. nvmlDeviceGetHandleByIndex ?E hist 0 = Inr 0"
    by (simp add: library_env_def)
  have d: "\<And>hist. nvmlDeviceGetComputeRunningProcesses ?E hist 0 = Inr [?p]"
    by (simp add: library_env_def)
  have e: "\<And>hist. nvmlDeviceGetGraphicsRunningProcesses ?E hist 0 = Inr [?p]"
    by (simp add: library_env_def)
  have h2: "?p \<in> set [?p]" by simp
  have h3: "usedGpuMemory ?p \<noteq> NotAvailable" by simp
  from nvml_lists_are_not_deduplicated[OF h1 a b c d e h2 h2 h3] h1 a b c d e h2 h3
  show ?thesis by blast
qed

lemma library_example_run:
  "method1
     (library_env [\<lparr>proc_pid = 77, usedGpuMemory = Bytes 1048576000\<rparr>]
        [\<lparr>proc_pid = 77, usedGpuMemory = Bytes 1048576000\<rparr>])
     (start [gpu0])
   = Returns
       \<lparr>gpus = [gpu0\<lparr>processes := [\<lparr>pid = 77, pname = ''PID 77'', pmem = 1000\<rparr>,
                                       \<lparr>pid = 77, pname = ''PID 77'', pmem = 1000\<rparr>]\<rparr>],
        appended = 2,
        calls = [Import_pynvml, NvmlInit, NvmlDeviceGetHandleByIndex 0,
                 NvmlDeviceGetComputeRunningProcesses 0,
                 NvmlDeviceGetGraphicsRunningProcesses 0,
                 NvmlSystemGetProcessName 77, NvmlSystemGetProcessName 77, NvmlShutdown]\<rparr>"
  by code_simp

text \<open>
  C5, as the code has it. A memory value given as the "not applicable" sentinel makes no
  method raise: methods 1, 2 and 4 return whatever they read. Where the only
  \<open><used_memory>\<close> element of a process block of the XML report holds the sentinel, the
  entry that method 2 builds has memory 0; a row of the compute-apps query with the sentinel
  in its memory field, and a row of the process monitor with the sentinel or \<open>-\<close> there,
  are attached with memory 0.
\<close>

theorem memory_sentinel:
  "(\<exists>s'. method1 env s = Returns s') \<and> (\<exists>s'. method2 env s = Returns s')
   \<and> (\<exists>s'. method4 env s = Returns s')
   \<and> (sentinel x \<and> \<not> str_in ''<used_memory>'' pre \<and> \<not> str_in ''<used_memory>'' post
        \<and> xml_process maxd (pre @ ''<used_memory>'' @ x @ ''</used_memory>'' @ post)
            = Inr (Some p)
      \<longrightarrow> pmem p = 0)
   \<and> (sentinel (parts ! 3) \<and> py_int (max_str_digits env) (parts ! 1) = Inr v
      \<longrightarrow> compute_apps_row env parts s
          = Returns (attach_counted (\<lambda>g. uuid g = Some (parts ! 0))
                       \<lparr>pid = v, pname = parts ! 2, pmem = 0\<rparr> s))
   \<and> ((sentinel (words ! 7) \<or> words ! 7 = ''-'')
        \<and> py_int (max_str_digits env) (words ! 0) = Inr i
        \<and> py_int (max_str_digits env) (words ! 1) = Inr w
      \<longrightarrow> pmon_row env words s
          = Returns (s\<lparr>gpus := attach (\<lambda>g. id_gpu g = i)
                                 \<lparr>pid = w, pname = words ! 8, pmem = 0\<rparr> (gpus s)\<rparr>))"
proof (intro conjI impI)
  show "\<exists>s'. method1 env s = Returns s'" by (rule method1_returns)
  show "\<exists>s'. method2 env s = Returns s'" by (rule method2_returns)
  show "\<exists>s'. method4 env s = Returns s'" by (rule method4_returns)
next
  assume "sentinel x \<and> \<not> str_in ''<used_memory>'' pre \<and> \<not> str_in ''<used_memory>'' post
        \<and> xml_process maxd (pre @ ''<used_memory>'' @ x @ ''</used_memory>'' @ post)
            = Inr (Some p)"
  then show "pmem p = 0"
    using used_memory_sentinel xml_process_memory by blast
next
  assume "sentinel (parts ! 3) \<and> py_int (max_str_digits env) (parts ! 1) = Inr v"
  then show "compute_apps_row env parts s
          = Returns (attach_counted (\<lambda>g. uuid g = Some (parts ! 0))
                       \<lparr>pid = v, pname = parts ! 2, pmem = 0\<rparr> s)"
    by (auto simp: compute_apps_row_def compute_apps_memory_def sentinel_def)
next
  assume "(sentinel (words ! 7) \<or> words ! 7 = ''-'')
        \<and> py_int (max_str_digits env) (words ! 0) = Inr i
        \<and> py_int (max_str_digits env) (words ! 1) = Inr w"
  then show "pmon_row env words s
          = Returns (s\<lparr>gpus := attach (\<lambda>g. id_gpu g = i)
                                 \<lparr>pid = w, pname = words ! 8, pmem = 0\<rparr> (gpus s)\<rparr>)"
    by (auto simp: pmon_row_def pmon_memory_def sentinel_def then_exn_def)
qed

theorem memory_sentinel_witness:
  "sentinel ''N/A''
   \<and> \<not> str_in ''<used_memory>'' ''<pid>1234</pid>''
   \<and> \<not> str_in ''<used_memory>'' ''<process_name>train.py</process_name>''
   \<and> xml_process 4300
         (''<pid>1234</pid>'' @ ''<used_memory>'' @ ''N/A'' @ ''</used_memory>''
            @ ''<process_name>train.py</process_name>'')
       = Inr (Some \<lparr>pid = 1234, pname = ''train.py'', pmem = 0\<rparr>)
   \<and> pmem \<lparr>pid = 1234, pname = ''train.py'', pmem = 0\<rparr> = 0
   \<and> sentinel ([''GPU-abc'', ''123'', ''python'', ''[N/A]''] ! 3)
   \<and> py_int (max_str_digits no_tools) ([''GPU-abc'', ''123'', ''python'', ''[N/A]''] ! 1)
       = Inr 123
   \<and> compute_apps_row no_tools [''GPU-abc'', ''123'', ''python'', ''[N/A]''] (start [gpu0])
       = Returns
           (attach_counted
              (\<lambda>g. uuid g = Some ([''GPU-abc'', ''123'', ''python'', ''[N/A]''] ! 0))
              \<lparr>pid = 123, pname = [''GPU-abc'', ''123'', ''python'', ''[N/A]''] ! 2, pmem = 0\<rparr>
              (start [gpu0]))
   \<and> (sentinel ([''0'', ''4567'', ''C'', ''1'', ''2'', ''-'', ''-'', ''-'', ''python3''] ! 7)
        \<or> [''0'', ''4567'', ''C'', ''1'', ''2'', ''-'', ''-'', ''-'', ''python3''] ! 7 = ''-'')
   \<and> py_int (max_str_digits no_tools)
         ([''0'', ''4567'', ''C'', ''1'', ''2'', ''-'', ''-'', ''-'', ''python3''] ! 0) = Inr 0
   \<and> py_int (max_str_digits no_tools)
         ([''0'', ''4567'', ''C'', ''1'', ''2'', ''-'', ''-'', ''-'', ''python3''] ! 1) = Inr 4567
   \<and> pmon_row no_tools [''0'', ''4567'', ''C'', ''1'', ''2'', ''-'', ''-'', ''-'', ''python3'']
         (start [gpu0])
       = Returns
           (start [gpu0]
              \<lparr>gpus :=
                 attach (\<lambda>g. id_gpu g = 0)
                   \<lparr>pid = 4567,
                    pname = [''0'', ''4567'', ''C'', ''1'', ''2'', ''-'', ''-'', ''-'', ''python3''] ! 8,
                    pmem = 0\<rparr>
                   (gpus (start [gpu0]))\<rparr>)"
proof -
  have h2: "sentinel ''N/A''
     \<and> \<not> str_in ''<used_memory>'' ''<pid>1234</pid>''
     \<and> \<not> str_in ''<used_memory>'' ''<process_name>train.py</process_name>''
     \<and> xml_process 4300
         (''<pid>1234</pid>'' @ ''<used_memory>'' @ ''N/A'' @ ''</used_memory>''
            @ ''<process_name>train.py</process_name>'')
       = Inr (Some \<lparr>pid = 1234, pname = ''train.py'', pmem = 0\<rparr>)"
    by code_simp
  have h3: "sentinel ([''GPU-abc'', ''123'', ''python'', ''[N/A]''] ! 3)
     \<and> py_int (max_str_digits no_tools) ([''GPU-abc'', ''123'', ''python'', ''[N/A]''] ! 1)
       = Inr 123"
    by code_simp
  have h5: "(sentinel ([''0'', ''4567'', ''C'', ''1'', ''2'', ''-'', ''-'', ''-'', ''python3''] ! 7)
        \<or> [''0'', ''4567'', ''C'', ''1'', ''2'', ''-'', ''-'', ''-'', ''python3''] ! 7 = ''-'')
     \<and> py_int (max_str_digits no_tools)
         ([''0'', ''4567'', ''C'', ''1'', ''2'', ''-'', ''-'', ''-'', ''python3''] ! 0) = Inr 0
     \<and> py_int (max_str_digits no_tools)
         ([''0'', ''4567'', ''C'', ''1'', ''2'', ''-'', ''-'', ''-'', ''python3''] ! 1) = Inr 4567"
    by code_simp
  from memory_sentinel
         [where env = no_tools and s = "start [gpu0]" and x = "''N/A''"
            and pre = "''<pid>1234</pid>''"
            and post = "''<process_name>train.py</process_name>''" and maxd = 4300
            and p = "\<lparr>pid = 1234, pname = ''train.py'', pmem = 0\<rparr>"
            and parts = "[''GPU-abc'', ''123'', ''python'', ''[N/A]'']" and v = 123
            and words = "[''0'', ''4567'', ''C'', ''1'', ''2'', ''-'', ''-'', ''-'', ''python3'']"
            and i = 0 and w = 4567]
       h2 h3 h5
  show ?thesis by blast
qed

theorem memory_sentinel_counterexample:
  "xml_process 4300 na_process_info
     = Inr (Some \<lparr>pid = 1234, pname = ''train.py'', pmem = 0\<rparr>)
   \<and> nvml_process no_tools 0 \<lparr>proc_pid = 78, usedGpuMemory = NotAvailable\<rparr> (start [gpu0])
       = Returns (start [gpu0])"
  by code_simp

text \<open>
  C3. The claim is that the row \<open>| 0 1 N/A 4567 C python3 2048MiB |\<close> under the
  \<open>Processes:\<close> header gives device 0 the process 4567. The code splits a row at \<open>|\<close> and
  wants seven columns, so this row, which has one, is skipped: method 4 returns the device
  list as it was and counts nothing. (This holds for every report whose lines have fewer
  than six \<open>|\<close>, see \<open>table_lines_few_columns\<close>.)
\<close>

theorem table_row_is_skipped:
  "method4 (only_cmd ''nvidia-smi'' table_report) (start [gpu0])
     = Returns \<lparr>gpus = [gpu0], appended = 0, calls = [Check_output ''nvidia-smi'']\<rparr>"
  by code_simp

text \<open>
  C2. The claim is that the pass never raises. With the first three methods finding
  nothing, a row of the compute-apps query whose memory field is \<open>inf\<close> raises
  \<open>OverflowError\<close> out of \<open>_add_process_info\<close>, and so does any exception of the command
  runner other than \<open>CalledProcessError\<close>: methods 3 and 5 catch only that class and
  \<open>ValueError\<close>. (Methods 1, 2 and 4 never raise, and a pass that attributes nothing leaves
  every device as it was: \<open>method1_returns\<close>, \<open>method2_returns\<close>, \<open>method4_returns\<close>,
  \<open>zero_attributions_leave_devices\<close>.)
\<close>

theorem resolver_raises:
  "add_process_info
     (only_cmd (compute_apps_cmd ''gpu_uuid,pid,process_name,used_memory'')
        ''GPU-abc, 123, python, inf'') [] [gpu0]
     = Inl OverflowError
   \<and> add_process_info
       (raising_cmd (compute_apps_cmd ''gpu_uuid,pid,process_name,used_memory'')
          UnicodeDecodeError) [] [gpu0]
     = Inl UnicodeDecodeError"
  by code_simp

text \<open>
  C4. The claim is that a metric field given as the sentinel becomes an absent value and
  that the row never raises. Only the fan field is treated so (\<open>fan_sentinel_is_absent\<close>);
  with \<open>[N/A]\<close> as power draw, \<open>get_gpus\<close> raises \<open>ValueError\<close>. (Every row with the
  sentinel in one of the six other metric fields raises, see \<open>sentinel_metric_raises\<close>.)
\<close>

theorem sentinel_row_raises:
  "get_gpus (only_cmd query_gpu_cmd csv_row) = Inl ValueError"
  by (simp add: get_gpus_def run_cmd_def call_out_def only_cmd_def no_tools_def csv_row_lines
      csv_row_raises then_exn_def)

section \<open>The device query\<close>

text \<open>
  C9. If the device query of the driver tool fails (the tool is missing or exits with a
  non-zero status, so that \<open>check_output\<close> raises), \<open>get_gpus\<close> raises that exception and
  returns no device list, and the endpoint raises it too instead of answering with a
  snapshot.
\<close>

theorem enumeration_failure_is_total:
  assumes "check_output env [] query_gpu_cmd = Inl e"
  shows "get_gpus env = Inl e \<and> nvidia env = Inl e"
  using assms by (simp add: get_gpus_def nvidia_def run_cmd_def call_out_def then_exn_def)

theorem enumeration_failure_is_total_witness:
  "check_output no_tools [] query_gpu_cmd = Inl CalledProcessError
   \<and> get_gpus no_tools = Inl CalledProcessError \<and> nvidia no_tools = Inl CalledProcessError"
proof -
  have h: "check_output no_tools [] query_gpu_cmd = Inl CalledProcessError"
    by (simp add: no_tools_def)
  show ?thesis using h enumeration_failure_is_total [OF h] by simp
qed

end
